(* ===== verification/Prelude.thy ===== *)
theory Prelude
  imports Main "HOL-Library.Word"
begin

text \<open>
  Shared vocabulary of the development. A JavaScript string is a sequence of
  UTF-16 code units, so a string of the program is a list of \<open>16 word\<close>
  values: \<open>length\<close> counts what \<open>String.prototype.length\<close> counts and
  \<open>take\<close> cuts where \<open>slice\<close> cuts. ASCII literals of the source are
  written as Isabelle strings and converted by \<open>js_lit\<close>; the few
  non-ASCII literals are written out as code-unit lists.
  The prelude also holds the error type shared by all components (each
  \<open>throw\<close> of the program is an \<open>Inl\<close> value), the list helpers the
  components share and the lemma collections that carry their proofs.
\<close>

type_synonym cu = "16 word"
type_synonym jstr = "cu list"

definition js_lit :: "string \<Rightarrow> jstr" where
  "js_lit s = map (\<lambda>c. of_nat (of_char c)) s"

text \<open>
  The errors the script can raise: the missing input file and the non-array
  input (both \<open>throw new Error\<close> in \<open>loadJson\<close>), the \<open>SyntaxError\<close> of
  \<open>JSON.parse\<close>, the \<open>URIError\<close> of \<open>encodeURIComponent\<close>, the
  \<open>TypeError\<close> of \<open>String()\<close> on an object that cannot be converted and of
  \<open>fs.writeFileSync\<close> on a path with a null character, a failed
  \<open>fs.readFileSync\<close> (the input path is a directory) and a failed
  \<open>fs.mkdirSync\<close> or \<open>fs.writeFileSync\<close>. None is caught: each one ends
  the run.
\<close>

datatype error = ConfigError | ParseError | SchemaError | UriError | TypeError | ReadError | WriteError

named_theorems js_simps "evaluation rules of the JavaScript layer"

text \<open>Code units named by the character they stand for.\<close>

abbreviation cu_amp :: cu where "cu_amp \<equiv> 38"
abbreviation cu_lt :: cu where "cu_lt \<equiv> 60"
abbreviation cu_gt :: cu where "cu_gt \<equiv> 62"
abbreviation cu_quot :: cu where "cu_quot \<equiv> 34"
abbreviation cu_apos :: cu where "cu_apos \<equiv> 39"
abbreviation cu_space :: cu where "cu_space \<equiv> 32"
abbreviation cu_slash :: cu where "cu_slash \<equiv> 47"
abbreviation cu_percent :: cu where "cu_percent \<equiv> 37"
abbreviation cu_newline :: cu where "cu_newline \<equiv> 10"
abbreviation cu_ellipsis :: cu where "cu_ellipsis \<equiv> 0x2026"

subsection \<open>List helpers\<close>

text \<open>The objects that survive a \<open>filter(q => q && ...)\<close>: the \<open>Some\<close> values, in order.\<close>

fun somes :: "'a option list \<Rightarrow> 'a list" where
  "somes [] = []"
| "somes (None # xs) = somes xs"
| "somes (Some x # xs) = x # somes xs"

text \<open>\<open>Array.prototype.join(sep)\<close> on strings already converted.\<close>

fun join :: "jstr \<Rightarrow> jstr list \<Rightarrow> jstr" where
  "join sep [] = []"
| "join sep [x] = x"
| "join sep (x # y # ys) = x @ sep @ join sep (y # ys)"

subsection \<open>UTF-16 well-formedness\<close>

text \<open>
  A JavaScript string may hold unpaired surrogates; \<open>encodeURIComponent\<close>
  rejects them and a UTF-8 file write replaces them. A string is well formed
  when every high surrogate is followed by a low one and no low surrogate
  stands alone.
\<close>

definition is_high_surrogate :: "cu \<Rightarrow> bool" where
  "is_high_surrogate c \<longleftrightarrow> 0xD800 \<le> c \<and> c \<le> 0xDBFF"

definition is_low_surrogate :: "cu \<Rightarrow> bool" where
  "is_low_surrogate c \<longleftrightarrow> 0xDC00 \<le> c \<and> c \<le> 0xDFFF"

fun well_formed_utf16 :: "jstr \<Rightarrow> bool" where
  "well_formed_utf16 [] = True"
| "well_formed_utf16 (c # cs) =
     (if is_high_surrogate c
      then (case cs of [] \<Rightarrow> False | d # ds \<Rightarrow> is_low_surrogate d \<and> well_formed_utf16 ds)
      else \<not> is_low_surrogate c \<and> well_formed_utf16 cs)"

subsection \<open>Hexadecimal digits\<close>

text \<open>The value of a hexadecimal digit in either case, as read by the URI and JSON decoders.\<close>

definition hex_val :: "cu \<Rightarrow> nat option" where
  "hex_val c =
     (if 48 \<le> c \<and> c \<le> 57 then Some (unat c - 48)
      else if 65 \<le> c \<and> c \<le> 70 then Some (unat c - 55)
      else if 97 \<le> c \<and> c \<le> 102 then Some (unat c - 87)
      else None)"

subsection \<open>Lemmas\<close>

lemma js_lit_simps [simp, js_simps]:
  "js_lit [] = []"
  "js_lit (c # cs) = of_nat (of_char c) # js_lit cs"
  "js_lit (a @ b) = js_lit a @ js_lit b"
  "length (js_lit s) = length s"
  by (simp_all add: js_lit_def)

lemma somes_append [simp]: "somes (xs @ ys) = somes xs @ somes ys"
  by (induction xs rule: somes.induct) auto

lemma set_somes [simp]: "set (somes xs) = {x. Some x \<in> set xs}"
  by (induction xs rule: somes.induct) auto

lemma length_somes_le: "length (somes xs) \<le> length xs"
  by (induction xs rule: somes.induct) auto

lemma concat_map_concat_map:
  "concat (map f (concat (map g xs))) = concat (map (\<lambda>x. concat (map f (g x))) xs)"
  by (induction xs) auto

lemma count_list_concat_map:
  "count_list (concat (map f xs)) c = (\<Sum>x\<leftarrow>xs. count_list (f x) c)"
  by (induction xs) auto

lemma filter_concat_map:
  "filter P (concat (map f xs)) = concat (map (\<lambda>x. filter P (f x)) xs)"
  by (induction xs) auto

lemma take_prefix_drop:
  "take (length p) xs = p \<Longrightarrow> xs = p @ drop (length p) xs"
  by (metis append_take_drop_id)

lemma count_list_join:
  "c \<notin> set sep \<Longrightarrow> count_list (join sep xs) c = (\<Sum>x\<leftarrow>xs. count_list x c)"
  by (induction sep xs rule: join.induct) (simp_all add: count_list_0_iff)

end
