(* ===== verification/JsValue.thy ===== *)
theory JsValue
  imports Prelude
begin

text \<open>
  The JavaScript values the script handles: what \<open>JSON.parse\<close> returns
  (null, booleans, numbers, strings, arrays, objects) and \<open>undefined\<close>, the
  value of a missing property. Objects are association lists in source
  order; \<open>JSON.parse\<close> keeps the last of duplicated keys, so a lookup
  searches the reversed list. Numbers are modelled as integers (the only
  numbers the records carry as ids; fractional and exponent notation is
  not modelled). This theory gives the three operations of the language the
  script relies on: truthiness (\<open>if (x)\<close>, \<open>!x\<close>, \<open>a || b\<close>, \<open>a && b\<close>),
  property access \<open>x.k\<close>, and the conversion \<open>String(v)\<close> that template
  literals and \<open>esc\<close>/\<open>clip\<close> apply, with \<open>to_string_ok\<close>, the condition
  under which that conversion does not throw.
\<close>

datatype jsval =
    JUndef
  | JNull
  | JBool bool
  | JNum int
  | JStr jstr
  | JArr "jsval list"
  | JObj "(jstr \<times> jsval) list"

text \<open>ECMAScript ToBoolean.\<close>

fun truthy :: "jsval \<Rightarrow> bool" where
  "truthy JUndef = False"
| "truthy JNull = False"
| "truthy (JBool b) = b"
| "truthy (JNum n) = (n \<noteq> 0)"
| "truthy (JStr s) = (s \<noteq> [])"
| "truthy (JArr xs) = True"
| "truthy (JObj kvs) = True"

text \<open>
  Property access \<open>v.k\<close> for the keys the script reads (\<open>id\<close>, \<open>data\<close>,
  \<open>title\<close>, \<open>body\<close>, \<open>deleted\<close>): an own property of an object, and
  \<open>undefined\<close> on every other value (none of these keys is an inherited or
  built-in property of strings, numbers, booleans or arrays). Reading a
  property of \<open>null\<close> or \<open>undefined\<close> would throw; the script never
  does, as it tests the value first.
\<close>

definition get_prop :: "jsval \<Rightarrow> string \<Rightarrow> jsval" where
  "get_prop v k =
     (case v of
        JObj kvs \<Rightarrow> (case map_of (rev kvs) (js_lit k) of None \<Rightarrow> JUndef | Some w \<Rightarrow> w)
      | _ \<Rightarrow> JUndef)"

text \<open>\<open>a || b\<close>: the first operand when truthy, otherwise the second.\<close>

definition js_or :: "jsval \<Rightarrow> jsval \<Rightarrow> jsval" where
  "js_or a b = (if truthy a then a else b)"

subsection \<open>String conversion\<close>

text \<open>Decimal digits of a natural number (\<open>Number.prototype.toString()\<close> on integers).\<close>

fun dec_digits :: "nat \<Rightarrow> jstr" where
  "dec_digits n = (if n < 10 then [of_nat (48 + n)] else dec_digits (n div 10) @ [of_nat (48 + n mod 10)])"

definition num_to_jstr :: "int \<Rightarrow> jstr" where
  "num_to_jstr i = (if i < 0 then 45 # dec_digits (nat (- i)) else dec_digits (nat i))"

text \<open>
  ECMAScript ToString: arrays are joined with commas, \<open>null\<close> and
  \<open>undefined\<close> elements giving the empty string; an object gives
  \<open>[object Object]\<close>. This is the result when the conversion succeeds; when
  it throws is \<open>to_string_ok\<close> below, which the callers test first.
\<close>

fun js_string :: "jsval \<Rightarrow> jstr" where
  "js_string JUndef = js_lit ''undefined''"
| "js_string JNull = js_lit ''null''"
| "js_string (JBool b) = (if b then js_lit ''true'' else js_lit ''false'')"
| "js_string (JNum n) = num_to_jstr n"
| "js_string (JStr s) = s"
| "js_string (JArr xs) =
     join (js_lit '','') (map (\<lambda>v. if v = JUndef \<or> v = JNull then [] else js_string v) xs)"
| "js_string (JObj kvs) = js_lit ''[object Object]''"

text \<open>
  Whether ToString succeeds. For an object, ToPrimitive calls \<open>toString\<close>
  and then \<open>valueOf\<close>; an own \<open>toString\<close> member parsed from JSON is not
  callable, so it is skipped, and \<open>Object.prototype.valueOf\<close> returns the
  object itself, so ToString throws a \<open>TypeError\<close>. Without such a member
  the inherited \<open>toString\<close> gives \<open>[object Object]\<close>. An array converts
  each element that is not \<open>null\<close> or \<open>undefined\<close>.
\<close>

fun to_string_ok :: "jsval \<Rightarrow> bool" where
  "to_string_ok (JObj kvs) = list_all (\<lambda>(k, v). k \<noteq> js_lit ''toString'') kvs"
| "to_string_ok (JArr xs) = list_all to_string_ok xs"
| "to_string_ok _ = True"

declare dec_digits.simps [simp del]

lemma js_or_truthy [simp, js_simps]:
  "truthy a \<Longrightarrow> js_or a b = a"
  "\<not> truthy a \<Longrightarrow> js_or a b = b"
  by (simp_all add: js_or_def)

lemma truthy_js_or [simp]: "truthy (js_or a b) = (truthy a \<or> truthy b)"
  by (simp add: js_or_def)

lemma get_prop_non_obj [simp, js_simps]:
  "get_prop JUndef k = JUndef" "get_prop JNull k = JUndef"
  "get_prop (JBool b) k = JUndef" "get_prop (JNum n) k = JUndef"
  "get_prop (JStr s) k = JUndef" "get_prop (JArr xs) k = JUndef"
  by (simp_all add: get_prop_def)

lemma get_prop_obj [js_simps]:
  "get_prop (JObj kvs) k = (case map_of (rev kvs) (js_lit k) of None \<Rightarrow> JUndef | Some w \<Rightarrow> w)"
  by (simp add: get_prop_def)

lemma dec_digits_nonempty: "dec_digits n \<noteq> []"
  by (subst dec_digits.simps) simp

end
