(* ===== verification/Escape.thy ===== *)
theory Escape
  imports JsValue
begin

text \<open>
  The function \<open>esc\<close> of \<open>src/generate.mjs\<close> (lines 8--15): \<open>String(s)\<close>
  followed by five \<open>String.prototype.replaceAll\<close> calls, for \<open>&\<close>, \<open><\<close>,
  \<open>>\<close>, \<open>"\<close> and \<open>'\<close>, in that order. \<open>replace_all\<close> is the string
  form of \<open>replaceAll\<close> (a non-overlapping left-to-right scan; an empty
  pattern matches between every two code units); the replacements used here
  contain no \<open>$\<close>, so no substitution pattern applies. The lemmas show that
  the chain equals the one-pass, character-wise escape \<open>esc_char\<close> (the
  order matters: \<open>&\<close> must go first), that its output holds none of
  \<open>< > " '\<close>, that the HTML decoding of the five entities inverts it, and
  how much it lengthens a string.
\<close>

fun replace_all :: "jstr \<Rightarrow> jstr \<Rightarrow> jstr \<Rightarrow> jstr" where
  "replace_all [] r s = r @ concat (map (\<lambda>c. c # r) s)"
| "replace_all (p # ps) r [] = []"
| "replace_all (p # ps) r (x # xs) =
     (if x = p \<and> take (length ps) xs = ps
      then r @ replace_all (p # ps) r (drop (length ps) xs)
      else x # replace_all (p # ps) r xs)"

definition html_escape :: "jstr \<Rightarrow> jstr" where
  "html_escape s =
     (let s1 = replace_all [cu_amp] (js_lit ''&amp;'') s;
          s2 = replace_all [cu_lt] (js_lit ''&lt;'') s1;
          s3 = replace_all [cu_gt] (js_lit ''&gt;'') s2;
          s4 = replace_all [cu_quot] (js_lit ''&quot;'') s3
      in replace_all [cu_apos] (js_lit ''&#39;'') s4)"

text \<open>\<open>esc(s = "")\<close>: the default applies to \<open>undefined\<close> only.\<close>

definition esc :: "jsval \<Rightarrow> jstr" where
  "esc v = html_escape (js_string (if v = JUndef then JStr [] else v))"

subsection \<open>Reference: escaping one code unit at a time\<close>

definition esc_char :: "cu \<Rightarrow> jstr" where
  "esc_char c =
     (if c = cu_amp then js_lit ''&amp;''
      else if c = cu_lt then js_lit ''&lt;''
      else if c = cu_gt then js_lit ''&gt;''
      else if c = cu_quot then js_lit ''&quot;''
      else if c = cu_apos then js_lit ''&#39;''
      else [c])"

text \<open>
  The decoding an HTML parser applies to the five character references the
  escape produces; any other \<open>&\<close> is kept as it is.
\<close>

fun html_unescape :: "jstr \<Rightarrow> jstr" where
  "html_unescape [] = []"
| "html_unescape (c # cs) =
     (if c = cu_amp then
        (if take 4 cs = js_lit ''amp;'' then cu_amp # html_unescape (drop 4 cs)
         else if take 3 cs = js_lit ''lt;'' then cu_lt # html_unescape (drop 3 cs)
         else if take 3 cs = js_lit ''gt;'' then cu_gt # html_unescape (drop 3 cs)
         else if take 5 cs = js_lit ''quot;'' then cu_quot # html_unescape (drop 5 cs)
         else if take 4 cs = js_lit ''#39;'' then cu_apos # html_unescape (drop 4 cs)
         else cu_amp # html_unescape cs)
      else c # html_unescape cs)"

definition markup_free :: "jstr \<Rightarrow> bool" where
  "markup_free s \<longleftrightarrow> cu_lt \<notin> set s \<and> cu_gt \<notin> set s \<and> cu_quot \<notin> set s \<and> cu_apos \<notin> set s"

subsection \<open>The one-code-unit pattern\<close>

lemma replace_all_single:
  "replace_all [c] r s = concat (map (\<lambda>x. if x = c then r else [x]) s)"
  by (induction s) auto

lemma html_escape_Nil [simp]: "html_escape [] = []"
  by (simp add: html_escape_def)

lemma html_escape_append [simp]: "html_escape (a @ b) = html_escape a @ html_escape b"
  by (simp add: html_escape_def replace_all_single Let_def)

lemma html_escape_single [simp]: "html_escape [c] = esc_char c"
  by (simp add: html_escape_def replace_all_single esc_char_def)

lemma html_escape_Cons: "html_escape (c # cs) = esc_char c @ html_escape cs"
  using html_escape_append [of "[c]" cs] by simp

lemma esc_char_markup_free: "markup_free (esc_char c)"
  by (simp add: esc_char_def markup_free_def)

lemma markup_free_append [simp]: "markup_free (a @ b) \<longleftrightarrow> markup_free a \<and> markup_free b"
  by (auto simp: markup_free_def)

lemma markup_free_Nil [simp]: "markup_free []"
  by (simp add: markup_free_def)

lemma markup_free_html_escape: "markup_free (html_escape s)"
  by (induction s) (simp_all add: html_escape_Cons esc_char_markup_free)

lemma html_unescape_esc_char: "html_unescape (esc_char c @ rest) = c # html_unescape rest"
  by (simp add: esc_char_def)

lemma esc_char_length: "1 \<le> length (esc_char c) \<and> length (esc_char c) \<le> 6"
  by (simp add: esc_char_def)

lemma html_escape_plain: "\<forall>c\<in>set s. esc_char c = [c] \<Longrightarrow> html_escape s = s"
  by (induction s) (simp_all add: html_escape_Cons)

subsection \<open>Properties of the escape\<close>

text \<open>C7: the five-call chain computes the one-pass escape of every code unit.\<close>

theorem html_escape_eq_ref: "html_escape s = concat (map esc_char s)"
proof (induction s)
  case Nil
  show ?case by simp
next
  case (Cons c cs)
  then show ?case by (simp add: html_escape_Cons)
qed

text \<open>The escaped text contains none of \<open><\<close>, \<open>>\<close>, \<open>"\<close>, \<open>'\<close>.\<close>

theorem html_escape_no_markup:
  "cu_lt \<notin> set (html_escape s) \<and> cu_gt \<notin> set (html_escape s) \<and>
   cu_quot \<notin> set (html_escape s) \<and> cu_apos \<notin> set (html_escape s)"
  using markup_free_html_escape [of s] by (simp add: markup_free_def)

text \<open>C9: decoding the five entities gives back the original text.\<close>

theorem html_escape_roundtrip: "html_unescape (html_escape s) = s"
  by (induction s) (simp_all add: html_escape_Cons html_unescape_esc_char)

text \<open>Escaping keeps every code unit and at most sextuples the length.\<close>

theorem html_escape_length:
  "length s \<le> length (html_escape s) \<and> length (html_escape s) \<le> 6 * length s"
proof (induction s)
  case Nil
  show ?case by simp
next
  case (Cons c cs)
  have "1 \<le> length (esc_char c) \<and> length (esc_char c) \<le> 6" by (rule esc_char_length)
  with Cons show ?case by (simp add: html_escape_Cons)
qed

end
