(* ===== verification/Clip.thy ===== *)
theory Clip
  imports JsValue
begin

text \<open>
  The function \<open>clip\<close> of \<open>src/generate.mjs\<close> (lines 17--20), which makes
  the page description: \<open>String(s).replace(/\s+/g, " ").trim()\<close>, then the
  first \<open>n\<close> code units and an ellipsis (U+2026) when the result is longer
  than \<open>n\<close>. \<open>is_ws\<close> is the ECMAScript class \<open>\s\<close> (WhiteSpace and
  LineTerminator), which is also the set \<open>trim\<close> removes.
  The lemmas show that the collapse and trim give the words of the text
  joined by single spaces (\<open>ws_words\<close>), the length bound, that the result is whitespace-normalised
  (only single spaces, none leading), that a short text keeps all of its
  non-space content, and that a long one is cut to \<open>n\<close> units and marked.
\<close>

definition is_ws :: "cu \<Rightarrow> bool" where
  "is_ws c \<longleftrightarrow>
     c \<in> {9, 10, 11, 12, 13, 32, 0xA0, 0x1680, 0x2028, 0x2029, 0x202F, 0x205F, 0x3000, 0xFEFF}
     \<or> (0x2000 \<le> c \<and> c \<le> 0x200A)"

text \<open>\<open>s.replace(/\s+/g, " ")\<close>: every maximal run of whitespace becomes one space.\<close>

function collapse_ws :: "jstr \<Rightarrow> jstr" where
  "collapse_ws [] = []"
| "collapse_ws (c # cs) =
     (if is_ws c then cu_space # collapse_ws (dropWhile is_ws cs) else c # collapse_ws cs)"
  by pat_completeness auto
termination
  by (relation "measure length") (auto simp: le_imp_less_Suc length_dropWhile_le)

definition js_trim :: "jstr \<Rightarrow> jstr" where
  "js_trim s = rev (dropWhile is_ws (rev (dropWhile is_ws s)))"

text \<open>\<open>clip(s = "", n = 110)\<close>; the default of \<open>s\<close> applies to \<open>undefined\<close>.\<close>

definition clip :: "jsval \<Rightarrow> nat \<Rightarrow> jstr" where
  "clip s n =
     (let t = js_trim (collapse_ws (js_string (if s = JUndef then JStr [] else s)))
      in if n < length t then take n t @ [cu_ellipsis] else t)"

text \<open>No two adjacent whitespace code units.\<close>

fun no_ws_pair :: "jstr \<Rightarrow> bool" where
  "no_ws_pair (a # b # r) = (\<not> (is_ws a \<and> is_ws b) \<and> no_ws_pair (b # r))"
| "no_ws_pair _ = True"

text \<open>
  The specification's reading of the description: the words of the text (its
  maximal runs of non-whitespace code units), in order.
\<close>

function ws_words :: "jstr \<Rightarrow> jstr list" where
  "ws_words s =
     (let d = dropWhile is_ws s in
      if d = [] then []
      else takeWhile (\<lambda>c. \<not> is_ws c) d # ws_words (dropWhile (\<lambda>c. \<not> is_ws c) d))"
  by pat_completeness auto
termination
proof (relation "measure length")
  show "wf (measure length)" by simp
  show "\<And>s d. d = dropWhile is_ws s \<Longrightarrow> d \<noteq> [] \<Longrightarrow>
          (dropWhile (\<lambda>c. \<not> is_ws c) d, s) \<in> measure length"
  proof -
    fix s d
    assume d: "d = dropWhile is_ws s" and ne: "d \<noteq> []"
    then have "\<not> is_ws (hd d)" by (simp add: hd_dropWhile)
    with ne have "length (dropWhile (\<lambda>c. \<not> is_ws c) d) < length d"
      by (cases d) (auto simp: le_imp_less_Suc length_dropWhile_le)
    moreover have "length d \<le> length s" using d by (simp add: length_dropWhile_le)
    ultimately show "(dropWhile (\<lambda>c. \<not> is_ws c) d, s) \<in> measure length" by simp
  qed
qed

declare ws_words.simps [simp del]

subsection \<open>Whitespace collapse and trim\<close>

lemma is_ws_space [simp]: "is_ws cu_space"
  by (simp add: is_ws_def)

lemma not_is_ws_ellipsis [simp]: "\<not> is_ws cu_ellipsis"
  by (simp add: is_ws_def)

lemma filter_dropWhile_ws:
  "filter (\<lambda>c. \<not> is_ws c) (dropWhile is_ws s) = filter (\<lambda>c. \<not> is_ws c) s"
  by (induction s) auto

lemma collapse_ws_filter:
  "filter (\<lambda>c. \<not> is_ws c) (collapse_ws s) = filter (\<lambda>c. \<not> is_ws c) s"
  by (induction s rule: collapse_ws.induct) (auto simp: filter_dropWhile_ws)

lemma js_trim_filter:
  "filter (\<lambda>c. \<not> is_ws c) (js_trim s) = filter (\<lambda>c. \<not> is_ws c) s"
  by (simp add: js_trim_def filter_dropWhile_ws rev_filter [symmetric])

lemma collapse_ws_only_space: "c \<in> set (collapse_ws s) \<Longrightarrow> is_ws c \<Longrightarrow> c = cu_space"
  by (induction s rule: collapse_ws.induct) (auto split: if_splits)

lemma set_js_trim: "set (js_trim s) \<subseteq> set s"
proof
  fix x
  assume "x \<in> set (js_trim s)"
  then have "x \<in> set (dropWhile is_ws (rev (dropWhile is_ws s)))"
    by (simp add: js_trim_def)
  then have "x \<in> set (rev (dropWhile is_ws s))" by (rule set_dropWhileD)
  then have "x \<in> set (dropWhile is_ws s)" by simp
  then show "x \<in> set s" by (rule set_dropWhileD)
qed

lemma collapse_ws_hd:
  "s \<noteq> [] \<Longrightarrow> \<not> is_ws (hd s) \<Longrightarrow> collapse_ws s \<noteq> [] \<and> hd (collapse_ws s) = hd s"
  by (cases s) auto

lemma no_ws_pair_Cons:
  "no_ws_pair (a # s) \<longleftrightarrow> no_ws_pair s \<and> \<not> (s \<noteq> [] \<and> is_ws a \<and> is_ws (hd s))"
  by (cases s) auto

lemma no_ws_pair_append:
  "no_ws_pair (xs @ ys) \<longleftrightarrow>
     no_ws_pair xs \<and> no_ws_pair ys \<and> \<not> (xs \<noteq> [] \<and> ys \<noteq> [] \<and> is_ws (last xs) \<and> is_ws (hd ys))"
  by (induction xs) (auto simp: no_ws_pair_Cons)

lemma no_ws_pair_rev: "no_ws_pair (rev s) \<longleftrightarrow> no_ws_pair s"
  by (induction s) (auto simp: no_ws_pair_append no_ws_pair_Cons hd_rev last_rev)

lemma no_ws_pair_take: "no_ws_pair s \<Longrightarrow> no_ws_pair (take n s)"
  using no_ws_pair_append [of "take n s" "drop n s"] by simp

lemma no_ws_pair_dropWhile: "no_ws_pair s \<Longrightarrow> no_ws_pair (dropWhile P s)"
  using no_ws_pair_append [of "takeWhile P s" "dropWhile P s"] by simp

lemma collapse_ws_dropWhile_hd:
  "collapse_ws (dropWhile is_ws cs) = [] \<or> \<not> is_ws (hd (collapse_ws (dropWhile is_ws cs)))"
proof (cases "dropWhile is_ws cs")
  case Nil
  show ?thesis by (simp add: Nil)
next
  case (Cons d ds)
  then have "\<not> is_ws d" using hd_dropWhile [of is_ws cs] by auto
  then show ?thesis unfolding Cons by simp
qed

lemma no_ws_pair_collapse_ws: "no_ws_pair (collapse_ws s)"
proof (induction s rule: collapse_ws.induct)
  case 1
  show ?case by simp
next
  case (2 c cs)
  show ?case
  proof (cases "is_ws c")
    case True
    with "2.IH"(1) collapse_ws_dropWhile_hd [of cs] show ?thesis
      by (auto simp: no_ws_pair_Cons)
  next
    case False
    with "2.IH"(2) show ?thesis
      using collapse_ws_only_space [of "hd (collapse_ws cs)" cs]
      by (auto simp: no_ws_pair_Cons)
  qed
qed

lemma no_ws_pair_js_trim: "no_ws_pair s \<Longrightarrow> no_ws_pair (js_trim s)"
  by (simp add: js_trim_def no_ws_pair_rev no_ws_pair_dropWhile)

lemma js_trim_hd: "js_trim s \<noteq> [] \<Longrightarrow> \<not> is_ws (hd (js_trim s))"
proof -
  assume ne: "js_trim s \<noteq> []"
  let ?d = "dropWhile is_ws s"
  have "js_trim s = rev (dropWhile is_ws (rev ?d))" by (simp add: js_trim_def)
  then obtain u where u: "?d = js_trim s @ u"
    by (metis rev_rev_ident rev_append takeWhile_dropWhile_id)
  with ne have "?d \<noteq> []" by simp
  then have "\<not> is_ws (hd ?d)" by (rule hd_dropWhile)
  with u ne show ?thesis by simp
qed

lemma clip_text_normalised:
  fixes x :: jstr
  defines "t \<equiv> js_trim (collapse_ws x)"
  shows "no_ws_pair t \<and> (\<forall>c\<in>set t. is_ws c \<longrightarrow> c = cu_space) \<and> (t \<noteq> [] \<longrightarrow> \<not> is_ws (hd t))"
  using no_ws_pair_js_trim [OF no_ws_pair_collapse_ws [of x]] set_js_trim [of "collapse_ws x"]
    collapse_ws_only_space [of _ x] js_trim_hd [of "collapse_ws x"]
  unfolding t_def by blast

lemma clip_text_filter:
  "filter (\<lambda>c. \<not> is_ws c) (js_trim (collapse_ws x)) = filter (\<lambda>c. \<not> is_ws c) x"
  by (simp add: js_trim_filter collapse_ws_filter)

lemma dropWhile_no_ws: "\<forall>c\<in>set s. \<not> is_ws c \<Longrightarrow> dropWhile is_ws s = s"
  by (cases s) auto

lemma collapse_ws_no_ws: "\<forall>c\<in>set s. \<not> is_ws c \<Longrightarrow> collapse_ws s = s"
  by (induction s rule: collapse_ws.induct) auto

lemma js_trim_no_ws: "\<forall>c\<in>set s. \<not> is_ws c \<Longrightarrow> js_trim s = s"
  by (simp add: js_trim_def dropWhile_no_ws)

subsection \<open>The collapse and trim against the words of the text\<close>

lemma collapse_ws_word: "\<forall>c\<in>set w. \<not> is_ws c \<Longrightarrow> collapse_ws (w @ r) = w @ collapse_ws r"
  by (induction w) auto

lemma collapse_ws_lead:
  "dropWhile is_ws s \<noteq> s \<Longrightarrow> collapse_ws s = cu_space # collapse_ws (dropWhile is_ws s)"
  by (cases s) (auto split: if_splits)

lemma js_trim_ws_Cons: "is_ws c \<Longrightarrow> js_trim (c # s) = js_trim s"
  by (simp add: js_trim_def)

lemma js_trim_collapse_lead: "js_trim (collapse_ws s) = js_trim (collapse_ws (dropWhile is_ws s))"
  by (cases "dropWhile is_ws s = s") (simp_all add: collapse_ws_lead js_trim_ws_Cons)

lemma js_trim_word:
  assumes "w \<noteq> []" and "\<forall>c\<in>set w. \<not> is_ws c"
  shows "js_trim (w @ x) = (if \<forall>c\<in>set x. is_ws c then w else w @ rev (dropWhile is_ws (rev x)))"
proof -
  have "dropWhile is_ws (w @ x) = w @ x" using assms by (cases w) auto
  moreover have "dropWhile is_ws (rev w) = rev w" using assms by (cases "rev w") auto
  ultimately show ?thesis by (auto simp: js_trim_def dropWhile_append)
qed

lemma rtrim_space_Cons:
  "\<not> (\<forall>c\<in>set y. is_ws c) \<Longrightarrow>
   rev (dropWhile is_ws (rev (cu_space # y))) = cu_space # rev (dropWhile is_ws (rev y))"
  by (simp add: dropWhile_append)

lemma collapse_ws_all_ws: "dropWhile is_ws r = [] \<Longrightarrow> \<forall>c\<in>set (collapse_ws r). is_ws c"
proof (cases "r = []")
  case False
  assume e: "dropWhile is_ws r = []"
  then have dn: "dropWhile is_ws r \<noteq> r" using False by metis
  show ?thesis using collapse_ws_lead [OF dn, unfolded e] by simp
qed simp

lemma js_trim_word_space:
  assumes w: "w \<noteq> []" "\<forall>c\<in>set w. \<not> is_ws c"
    and r: "r \<noteq> []" "is_ws (hd r)" "dropWhile is_ws r \<noteq> []"
  shows "js_trim (w @ collapse_ws r) = w @ cu_space # js_trim (collapse_ws r)"
proof -
  define y where "y = collapse_ws (dropWhile is_ws r)"
  have dn: "dropWhile is_ws r \<noteq> r"
    using r by (cases r) (auto simp: impossible_Cons [OF length_dropWhile_le])
  have cr: "collapse_ws r = cu_space # y" by (simp add: collapse_ws_lead [OF dn] y_def)
  have "\<not> is_ws (hd (dropWhile is_ws r))" using r(3) by (simp add: hd_dropWhile)
  then have y: "y \<noteq> []" "\<not> is_ws (hd y)"
    using collapse_ws_hd [of "dropWhile is_ws r"] r(3) by (simp_all add: y_def)
  then have ny: "\<not> (\<forall>c\<in>set y. is_ws c)" by (cases y) auto
  have "dropWhile is_ws y = y" using y by (cases y) auto
  then have jy: "js_trim y = rev (dropWhile is_ws (rev y))" by (simp add: js_trim_def)
  show ?thesis
    using js_trim_word [OF w, of "cu_space # y"] ny rtrim_space_Cons [OF ny]
    by (simp add: cr jy js_trim_ws_Cons)
qed

lemma js_trim_collapse_words: "js_trim (collapse_ws s) = join [cu_space] (ws_words s)"
proof (induction s rule: ws_words.induct)
  case (1 s)
  define d where "d = dropWhile is_ws s"
  show ?case
  proof (cases "d = []")
    case True
    then have e: "dropWhile is_ws s = []" by (simp add: d_def)
    have "ws_words s = []" by (simp add: ws_words.simps [of s] e)
    moreover have "js_trim (collapse_ws s) = []"
      using js_trim_collapse_lead [of s, unfolded e] by (simp add: js_trim_def)
    ultimately show ?thesis by simp
  next
    case False
    define w where "w = takeWhile (\<lambda>c. \<not> is_ws c) d"
    define r where "r = dropWhile (\<lambda>c. \<not> is_ws c) d"
    have ih: "js_trim (collapse_ws r) = join [cu_space] (ws_words r)"
      using "1.IH" [OF d_def False] by (simp add: r_def)
    have hd: "\<not> is_ws (hd d)" using False by (simp add: d_def hd_dropWhile)
    have w: "w \<noteq> []" "\<forall>c\<in>set w. \<not> is_ws c"
      using False hd by (cases d, auto simp: w_def dest: set_takeWhileD)
    have ws: "ws_words s = w # ws_words r"
      using False by (simp add: ws_words.simps [of s] d_def [symmetric] w_def r_def Let_def)
    have dwr: "d = w @ r" by (simp add: w_def r_def)
    have t: "js_trim (collapse_ws s) = js_trim (w @ collapse_ws r)"
      using js_trim_collapse_lead [of s] collapse_ws_word [OF w(2)] by (simp add: d_def [symmetric] dwr)
    show ?thesis
    proof (cases "dropWhile is_ws r = []")
      case True
      then have "ws_words r = []" by (simp add: ws_words.simps [of r])
      then show ?thesis using t ws js_trim_word [OF w] collapse_ws_all_ws [OF True] by simp
    next
      case False
      then have rne: "r \<noteq> []" by auto
      then have "is_ws (hd r)" using hd_dropWhile [of "\<lambda>c. \<not> is_ws c" d] by (simp add: r_def)
      moreover obtain v vs where "ws_words r = v # vs"
        using False by (simp add: ws_words.simps [of r] Let_def)
      ultimately show ?thesis using t ws ih js_trim_word_space [OF w rne _ False] by simp
    qed
  qed
qed

subsection \<open>Properties of \<open>clip\<close>\<close>

text \<open>C12: the description is at most one code unit longer than the limit.\<close>

theorem clip_length_bound: "length (clip s n) \<le> Suc n"
  by (simp add: clip_def Let_def)

text \<open>
  C13: the description is whitespace-normalised: no two adjacent whitespace
  code units, every whitespace code unit a plain space, and no leading
  whitespace.
\<close>

theorem clip_normalised:
  "no_ws_pair (clip s n) \<and> (\<forall>c\<in>set (clip s n). is_ws c \<longrightarrow> c = cu_space) \<and>
   (clip s n \<noteq> [] \<longrightarrow> \<not> is_ws (hd (clip s n)))"
proof -
  define t where "t = js_trim (collapse_ws (js_string (if s = JUndef then JStr [] else s)))"
  have t: "no_ws_pair t \<and> (\<forall>c\<in>set t. is_ws c \<longrightarrow> c = cu_space) \<and> (t \<noteq> [] \<longrightarrow> \<not> is_ws (hd t))"
    unfolding t_def by (rule clip_text_normalised)
  show ?thesis
  proof (cases "n < length t")
    case True
    have "no_ws_pair (take n t @ [cu_ellipsis])"
      using t by (simp add: no_ws_pair_append no_ws_pair_take)
    moreover have "\<forall>c\<in>set (take n t @ [cu_ellipsis]). is_ws c \<longrightarrow> c = cu_space"
      using t set_take_subset [of n t] by auto
    moreover have "\<not> is_ws (hd (take n t @ [cu_ellipsis]))"
      using t True by (cases n) (auto simp: hd_append)
    ultimately show ?thesis using True by (simp add: clip_def t_def [symmetric])
  next
    case False
    with t show ?thesis by (simp add: clip_def t_def [symmetric])
  qed
qed

text \<open>
  A description that fits the limit keeps every non-whitespace code unit
  of the text, in order.
\<close>

theorem clip_short_keeps_text:
  assumes "s \<noteq> JUndef" and "length (js_trim (collapse_ws (js_string s))) \<le> n"
  shows "filter (\<lambda>c. \<not> is_ws c) (clip s n) = filter (\<lambda>c. \<not> is_ws c) (js_string s)"
  using assms by (simp add: clip_def Let_def clip_text_filter)

text \<open>
  C14: a longer text is cut to exactly \<open>n\<close> code units followed by the
  ellipsis, and what is kept is a prefix of the text's non-whitespace content.
\<close>

theorem clip_long_truncates:
  assumes "s \<noteq> JUndef" and "n < length (js_trim (collapse_ws (js_string s)))"
  shows "length (clip s n) = Suc n \<and> last (clip s n) = cu_ellipsis \<and>
         (\<exists>r. filter (\<lambda>c. \<not> is_ws c) (js_string s) =
              filter (\<lambda>c. \<not> is_ws c) (butlast (clip s n)) @ r)"
proof -
  define t where "t = js_trim (collapse_ws (js_string s))"
  have c: "clip s n = take n t @ [cu_ellipsis]"
    using assms by (simp add: clip_def Let_def t_def)
  have "filter (\<lambda>c. \<not> is_ws c) (js_string s) = filter (\<lambda>c. \<not> is_ws c) t"
    by (simp add: t_def clip_text_filter)
  also have "\<dots> = filter (\<lambda>c. \<not> is_ws c) (take n t) @ filter (\<lambda>c. \<not> is_ws c) (drop n t)"
    by (metis append_take_drop_id filter_append)
  finally have "filter (\<lambda>c. \<not> is_ws c) (js_string s) =
      filter (\<lambda>c. \<not> is_ws c) (butlast (clip s n)) @ filter (\<lambda>c. \<not> is_ws c) (drop n t)"
    by (simp add: c)
  with assms c show ?thesis by (auto simp: t_def)
qed

text \<open>
  C26: \<open>clip\<close> refines the specification's description: the words of the
  text joined by single spaces, cut to \<open>n\<close> code units and marked with the
  ellipsis when longer.
\<close>

theorem clip_words_spec:
  "clip s n =
     (let t = join [cu_space] (ws_words (js_string (if s = JUndef then JStr [] else s)))
      in if n < length t then take n t @ [cu_ellipsis] else t)"
  by (simp add: clip_def js_trim_collapse_words)

subsection \<open>Witnesses\<close>

theorem clip_normalised_witness:
  "clip (JStr [32, 97, 9, 10, 98, 32]) 120 = [97, 32, 98] \<and>
   no_ws_pair (clip (JStr [32, 97, 9, 10, 98, 32]) 120) \<and>
   \<not> is_ws (hd (clip (JStr [32, 97, 9, 10, 98, 32]) 120))"
proof -
  have "clip (JStr [32, 97, 9, 10, 98, 32]) 120 = [97, 32, 98]"
    by (simp add: clip_def js_trim_def is_ws_def)
  then show ?thesis using clip_normalised [of "JStr [32, 97, 9, 10, 98, 32]" 120] by simp
qed

theorem clip_short_keeps_text_witness:
  "JStr [32, 97, 9, 10, 98, 32] \<noteq> JUndef \<and>
   length (js_trim (collapse_ws (js_string (JStr [32, 97, 9, 10, 98, 32])))) \<le> 120 \<and>
   filter (\<lambda>c. \<not> is_ws c) (clip (JStr [32, 97, 9, 10, 98, 32]) 120) = [97, 98]"
proof -
  have h: "length (js_trim (collapse_ws (js_string (JStr [32, 97, 9, 10, 98, 32])))) \<le> 120"
    by (simp add: js_trim_def is_ws_def)
  have "filter (\<lambda>c. \<not> is_ws c) (js_string (JStr [32, 97, 9, 10, 98, 32])) = [97, 98]"
    by (simp add: is_ws_def)
  then show ?thesis using h clip_short_keeps_text [of "JStr [32, 97, 9, 10, 98, 32]" 120] by simp
qed

theorem clip_long_truncates_witness:
  "JStr [97, 32, 98, 99] \<noteq> JUndef \<and> 2 < length (js_trim (collapse_ws (js_string (JStr [97, 32, 98, 99])))) \<and>
   length (clip (JStr [97, 32, 98, 99]) 2) = 3 \<and> last (clip (JStr [97, 32, 98, 99]) 2) = cu_ellipsis"
proof -
  have h: "2 < length (js_trim (collapse_ws (js_string (JStr [97, 32, 98, 99]))))"
    by (simp add: js_trim_def is_ws_def)
  show ?thesis using h clip_long_truncates [of "JStr [97, 32, 98, 99]" 2] by simp
qed

text \<open>
  The cut counts UTF-16 code units, so it can fall inside a
  surrogate pair: 119 letters followed by an emoji give a description that
  ends in an unpaired high surrogate and the ellipsis.
\<close>

theorem clip_splits_surrogate_pair:
  "well_formed_utf16 (replicate 119 97 @ [0xD83D, 0xDE00]) \<and>
   clip (JStr (replicate 119 97 @ [0xD83D, 0xDE00])) 120 = replicate 119 97 @ [0xD83D, cu_ellipsis] \<and>
   \<not> well_formed_utf16 (replicate 119 97 @ [0xD83D, cu_ellipsis])"
proof -
  have ws: "\<forall>c\<in>set (replicate 119 97 @ [0xD83D, 0xDE00 :: cu]). \<not> is_ws c"
    by (simp add: is_ws_def)
  have wf_rep: "\<And>xs. well_formed_utf16 (replicate n (97::cu) @ xs) = well_formed_utf16 xs" for n
    by (induction n) (simp_all add: is_high_surrogate_def is_low_surrogate_def)
  have "clip (JStr (replicate 119 97 @ [0xD83D, 0xDE00])) 120 = replicate 119 97 @ [0xD83D, cu_ellipsis]"
    by (simp add: clip_def collapse_ws_no_ws [OF ws] js_trim_no_ws [OF ws])
  then show ?thesis
    by (simp add: wf_rep is_high_surrogate_def is_low_surrogate_def)
qed

end
