(* ===== verification/UriEncode.thy ===== *)
theory UriEncode
  imports JsValue
begin

text \<open>
  \<open>encodeURIComponent\<close>, which \<open>pageHtml\<close> (lines 39 and 62 of
  \<open>src/generate.mjs\<close>) applies to the record id, following the ECMAScript
  Encode operation: an unreserved code unit (ASCII letters, digits and
  \<open>- _ . ! ~ * ' ( )\<close>) is kept; any other code point, a surrogate pair
  counting as one, is written as the \<open>%XX\<close> escapes (upper-case hex) of its
  UTF-8 bytes; an unpaired surrogate throws \<open>URIError\<close>. The lemmas show
  that it fails exactly on strings that are not well-formed UTF-16, and that
  its output consists of unreserved code units and \<open>%\<close> only.
\<close>

definition uri_unreserved :: "cu \<Rightarrow> bool" where
  "uri_unreserved c \<longleftrightarrow>
     (65 \<le> c \<and> c \<le> 90) \<or> (97 \<le> c \<and> c \<le> 122) \<or> (48 \<le> c \<and> c \<le> 57) \<or>
     c \<in> set (js_lit ''-_.!~*'()'')"

definition hex_digit :: "nat \<Rightarrow> cu" where
  "hex_digit n = (if n < 10 then of_nat (48 + n) else of_nat (55 + n))"

definition pct_byte :: "nat \<Rightarrow> jstr" where
  "pct_byte b = [cu_percent, hex_digit (b div 16), hex_digit (b mod 16)]"

text \<open>The UTF-8 encoding of a code point, as a list of byte values.\<close>

definition utf8_bytes :: "nat \<Rightarrow> nat list" where
  "utf8_bytes cp =
     (if cp < 0x80 then [cp]
      else if cp < 0x800 then [0xC0 + cp div 64, 0x80 + cp mod 64]
      else if cp < 0x10000 then [0xE0 + cp div 4096, 0x80 + cp div 64 mod 64, 0x80 + cp mod 64]
      else [0xF0 + cp div 262144, 0x80 + cp div 4096 mod 64, 0x80 + cp div 64 mod 64,
            0x80 + cp mod 64])"

definition surrogate_cp :: "cu \<Rightarrow> cu \<Rightarrow> nat" where
  "surrogate_cp hi lo = (unat hi - 0xD800) * 0x400 + (unat lo - 0xDC00) + 0x10000"

definition enc_cp :: "nat \<Rightarrow> jstr" where
  "enc_cp cp = concat (map pct_byte (utf8_bytes cp))"

fun encode_uri_component :: "jstr \<Rightarrow> error + jstr" where
  "encode_uri_component [] = Inr []"
| "encode_uri_component (c # cs) =
     (if uri_unreserved c then
        (case encode_uri_component cs of Inl e \<Rightarrow> Inl e | Inr r \<Rightarrow> Inr (c # r))
      else if is_low_surrogate c then Inl UriError
      else if is_high_surrogate c then
        (case cs of
           [] \<Rightarrow> Inl UriError
         | d # ds \<Rightarrow>
             (if is_low_surrogate d then
                (case encode_uri_component ds of
                   Inl e \<Rightarrow> Inl e
                 | Inr r \<Rightarrow> Inr (enc_cp (surrogate_cp c d) @ r))
              else Inl UriError))
      else
        (case encode_uri_component cs of Inl e \<Rightarrow> Inl e | Inr r \<Rightarrow> Inr (enc_cp (unat c) @ r)))"

subsection \<open>Lemmas\<close>

lemma hex_digit_unreserved: "n < 16 \<Longrightarrow> uri_unreserved (hex_digit n)"
proof -
  assume n: "n < 16"
  have "unat (hex_digit n) = (if n < 10 then 48 + n else 55 + n)"
    using n by (simp add: hex_digit_def unat_of_nat del: of_nat_add)
  then show ?thesis
    using n by (auto simp: uri_unreserved_def word_le_nat_alt split: if_splits)
qed

lemma pct_byte_alphabet: "b < 256 \<Longrightarrow> c \<in> set (pct_byte b) \<Longrightarrow> uri_unreserved c \<or> c = cu_percent"
  by (auto simp: pct_byte_def intro: hex_digit_unreserved)

lemma utf8_bytes_bound: "cp < 0x110000 \<Longrightarrow> b \<in> set (utf8_bytes cp) \<Longrightarrow> b < 256"
  by (auto simp: utf8_bytes_def split: if_splits)

lemma unat_cu_bound: "unat (c :: cu) < 0x10000"
  using unsigned_less [of c] by simp

lemma surrogate_cp_bound:
  "is_high_surrogate hi \<Longrightarrow> is_low_surrogate lo \<Longrightarrow> surrogate_cp hi lo < 0x110000"
proof -
  assume "is_high_surrogate hi" "is_low_surrogate lo"
  then have "unat hi \<le> 0xDBFF" "unat lo \<le> 0xDFFF" "0xDC00 \<le> unat lo"
    by (auto simp: is_high_surrogate_def is_low_surrogate_def word_le_nat_alt)
  then show ?thesis by (simp add: surrogate_cp_def)
qed

lemma enc_cp_alphabet:
  "cp < 0x110000 \<Longrightarrow> c \<in> set (enc_cp cp) \<Longrightarrow> uri_unreserved c \<or> c = cu_percent"
proof -
  assume cp: "cp < 0x110000" and c: "c \<in> set (enc_cp cp)"
  then obtain b where b: "b \<in> set (utf8_bytes cp)" and cb: "c \<in> set (pct_byte b)"
    by (auto simp: enc_cp_def)
  from cp b have "b < 256" by (rule utf8_bytes_bound)
  then show ?thesis using cb by (rule pct_byte_alphabet)
qed

lemma uri_unreserved_not_surrogate:
  "uri_unreserved c \<Longrightarrow> \<not> is_high_surrogate c \<and> \<not> is_low_surrogate c"
  by (auto simp: uri_unreserved_def is_high_surrogate_def is_low_surrogate_def word_le_nat_alt)

lemma encode_uri_component_set:
  "encode_uri_component s = Inr r \<Longrightarrow> c \<in> set r \<Longrightarrow> uri_unreserved c \<or> c = cu_percent"
proof (induction s arbitrary: r rule: encode_uri_component.induct)
  case 1
  then show ?case by simp
next
  case (2 c' cs)
  have small: "unat c' < 0x110000" using unat_cu_bound [of c'] by simp
  show ?case
  proof (cases "uri_unreserved c' \<or> is_low_surrogate c' \<or> is_high_surrogate c'")
    case True
    with 2 show ?thesis
      by (auto split: if_splits sum.splits list.splits
               dest: enc_cp_alphabet [OF surrogate_cp_bound])
  next
    case False
    with 2 small show ?thesis
      by (auto split: sum.splits dest: enc_cp_alphabet)
  qed
qed

lemma enc_cp_length: "3 \<le> length (enc_cp cp)"
  by (simp add: enc_cp_def utf8_bytes_def pct_byte_def)

text \<open>
  The encoding never shortens a string, and keeps its length only when
  every code unit is unreserved (an escape is at least three units).
\<close>

lemma encode_uri_component_length:
  "encode_uri_component s = Inr r \<Longrightarrow>
   length s \<le> length r \<and> (length r = length s \<longrightarrow> (\<forall>c\<in>set s. uri_unreserved c))"
proof (induction s arbitrary: r rule: encode_uri_component.induct)
  case 1
  then show ?case by simp
next
  case (2 c cs)
  consider (u) "uri_unreserved c"
    | (h) "\<not> uri_unreserved c" "\<not> is_low_surrogate c" "is_high_surrogate c"
    | (o) "\<not> uri_unreserved c" "\<not> is_low_surrogate c" "\<not> is_high_surrogate c"
    | (l) "\<not> uri_unreserved c" "is_low_surrogate c"
    by blast
  then show ?case
  proof cases
    case u
    then obtain r' where e: "encode_uri_component cs = Inr r'" and r: "r = c # r'"
      using "2.prems" by (auto split: sum.splits)
    have "length cs \<le> length r' \<and> (length r' = length cs \<longrightarrow> (\<forall>c\<in>set cs. uri_unreserved c))"
      using "2.IH"(1) [OF u e] .
    then show ?thesis using u r by auto
  next
    case h
    then obtain d ds r' where cs: "cs = d # ds" and d: "is_low_surrogate d"
      and e: "encode_uri_component ds = Inr r'" and r: "r = enc_cp (surrogate_cp c d) @ r'"
      using "2.prems" by (auto split: list.splits if_splits sum.splits)
    have "length ds \<le> length r'" using "2.IH"(2) [OF h cs d e] by blast
    then show ?thesis using enc_cp_length [of "surrogate_cp c d"] cs r by auto
  next
    case o
    then obtain r' where e: "encode_uri_component cs = Inr r'" and r: "r = enc_cp (unat c) @ r'"
      using "2.prems" by (auto split: sum.splits)
    have "length cs \<le> length r'" using "2.IH"(3) [OF o e] by blast
    then show ?thesis using enc_cp_length [of "unat c"] r by auto
  next
    case l
    then show ?thesis using "2.prems" by simp
  qed
qed

lemma encode_unreserved:
  "\<forall>c\<in>set t. uri_unreserved c \<Longrightarrow> encode_uri_component t = Inr t"
  by (induction t) auto

lemma encode_uri_component_same:
  "encode_uri_component s = Inr r \<Longrightarrow> r = s \<longleftrightarrow> (\<forall>c\<in>set s. uri_unreserved c)"
  using encode_uri_component_length [of s r] encode_unreserved [of s] by auto

lemma encode_uri_component_wf:
  "(\<exists>r. encode_uri_component s = Inr r) \<longleftrightarrow> well_formed_utf16 s"
proof (induction s rule: encode_uri_component.induct)
  case 1
  then show ?case by simp
next
  case (2 c cs)
  show ?case
  proof (cases "uri_unreserved c")
    case True
    with "2.IH"(1) show ?thesis
      by (auto simp: uri_unreserved_not_surrogate split: sum.splits)
  next
    case False
    show ?thesis
    proof (cases "is_high_surrogate c")
      case hi: True
      then have "\<not> is_low_surrogate c"
        by (simp add: is_high_surrogate_def is_low_surrogate_def word_le_nat_alt)
      with hi False "2.IH"(2) show ?thesis
        by (auto split: list.splits sum.splits)
    next
      case nhi: False
      with False "2.IH"(3) show ?thesis
        by (auto split: sum.splits)
    qed
  qed
qed

lemma encode_uri_component_only_uri_error:
  "encode_uri_component s = Inl e \<Longrightarrow> e = UriError"
  by (induction s rule: encode_uri_component.induct) (auto split: if_splits sum.splits list.splits)

subsection \<open>Properties of the encoding\<close>

text \<open>
  C10: the only error \<open>encodeURIComponent\<close> raises is \<open>URIError\<close>, and it
  raises it exactly when its argument is not well-formed UTF-16.
\<close>

theorem encode_uri_component_error:
  "encode_uri_component s = Inl e \<longleftrightarrow> e = UriError \<and> \<not> well_formed_utf16 s"
proof
  assume err: "encode_uri_component s = Inl e"
  have "\<not> well_formed_utf16 s" using err encode_uri_component_wf [of s] by auto
  moreover have "e = UriError" using err by (rule encode_uri_component_only_uri_error)
  ultimately show "e = UriError \<and> \<not> well_formed_utf16 s" by simp
next
  assume "e = UriError \<and> \<not> well_formed_utf16 s"
  then have e: "e = UriError" and nwf: "\<not> (\<exists>r. encode_uri_component s = Inr r)"
    by (simp_all add: encode_uri_component_wf)
  then obtain e' where "encode_uri_component s = Inl e'"
    by (cases "encode_uri_component s") auto
  with e show "encode_uri_component s = Inl e"
    using encode_uri_component_only_uri_error by blast
qed

text \<open>
  C18: a successful encoding consists of unreserved code units and \<open>%\<close>
  only; in particular it has no \<open>< > " &\<close>, no space and no \<open>/\<close>.
\<close>

theorem encode_uri_component_alphabet:
  "encode_uri_component s = Inr r \<Longrightarrow> \<forall>c\<in>set r. uri_unreserved c \<or> c = cu_percent"
  using encode_uri_component_set by blast

theorem encode_uri_component_alphabet_witness:
  "encode_uri_component (js_lit ''a b'') = Inr (js_lit ''a%20b'') \<and>
   uri_unreserved (hd (js_lit ''a%20b''))"
proof -
  have e: "encode_uri_component (js_lit ''a b'') = Inr (js_lit ''a%20b'')"
    by (simp add: uri_unreserved_def is_low_surrogate_def is_high_surrogate_def enc_cp_def
        utf8_bytes_def pct_byte_def hex_digit_def)
  show ?thesis using encode_uri_component_alphabet [OF e] e by simp
qed

end
