(* ===== verification/Normalize.thy ===== *)
theory Normalize
  imports JsValue
begin

text \<open>
  The normalisation step of \<open>run\<close> in \<open>src/generate.mjs\<close> (lines 79--93):
  \<open>raw.map(x => ...)\<close> turns each parsed element into a record
  \<open>{id, title, body}\<close> or \<open>null\<close>, reading the Firestore shape
  \<open>{id, data: {title, body, deleted}}\<close> when \<open>x.data\<close> is truthy and the flat
  shape \<open>{id, title, body, deleted}\<close> otherwise; \<open>.filter(q => q && q.id &&
  (q.title || q.body))\<close> then keeps the records with a truthy id and a truthy
  title or body. \<open>question\<close> is the record the map produces; its fields keep
  the JavaScript values (a title may be a number), as \<open>pageHtml\<close> converts
  them with \<open>String\<close> later. \<open>raw || []\<close> is not modelled: \<open>loadJson\<close> has
  already made \<open>raw\<close> an array.
  The lemmas show that every surviving record satisfies the filter's
  condition, that the step works element by element in input order, that a
  deleted record of either shape never survives, and what comes out of each
  shape with string fields.
\<close>

record question =
  qid :: jsval
  qtitle :: jsval
  qbody :: jsval

definition normalize_item :: "jsval \<Rightarrow> question option" where
  "normalize_item x =
     (if \<not> truthy x then None
      else if truthy (get_prop x ''data'') then
        (if truthy (get_prop (get_prop x ''data'') ''deleted'') then None
         else Some \<lparr>qid = get_prop x ''id'',
                    qtitle = js_or (get_prop (get_prop x ''data'') ''title'') (JStr []),
                    qbody = js_or (get_prop (get_prop x ''data'') ''body'') (JStr [])\<rparr>)
      else if truthy (get_prop x ''deleted'') then None
      else Some \<lparr>qid = get_prop x ''id'',
                 qtitle = js_or (get_prop x ''title'') (JStr []),
                 qbody = js_or (get_prop x ''body'') (JStr [])\<rparr>)"

definition keep_question :: "question option \<Rightarrow> bool" where
  "keep_question q =
     (case q of None \<Rightarrow> False | Some r \<Rightarrow> truthy (qid r) \<and> (truthy (qtitle r) \<or> truthy (qbody r)))"

definition normalize :: "jsval list \<Rightarrow> question list" where
  "normalize raw = somes (filter keep_question (map normalize_item raw))"

text \<open>
  A raw element the code treats as soft-deleted: the \<open>deleted\<close> flag of its
  \<open>data\<close> object when \<open>data\<close> is truthy, its own flag otherwise.
\<close>

definition soft_deleted :: "jsval \<Rightarrow> bool" where
  "soft_deleted x \<longleftrightarrow>
     (if truthy (get_prop x ''data'') then truthy (get_prop (get_prop x ''data'') ''deleted'')
      else truthy (get_prop x ''deleted''))"

text \<open>The record that survives the filter: a truthy id and a truthy title or body.\<close>

definition valid_question :: "question \<Rightarrow> bool" where
  "valid_question q \<longleftrightarrow> truthy (qid q) \<and> (truthy (qtitle q) \<or> truthy (qbody q))"

subsection \<open>Lemmas\<close>

lemma normalize_Nil [simp]: "normalize [] = []"
  by (simp add: normalize_def)

lemma normalize_Cons:
  "normalize (x # xs) =
     (case normalize_item x of
        Some q \<Rightarrow> (if valid_question q then q # normalize xs else normalize xs)
      | None \<Rightarrow> normalize xs)"
  by (simp add: normalize_def keep_question_def valid_question_def split: option.split)

lemma normalize_item_deleted: "soft_deleted x \<Longrightarrow> normalize_item x = None"
  by (simp add: normalize_item_def soft_deleted_def)

lemma normalize_append_elems: "normalize (xs @ ys) = normalize xs @ normalize ys"
  by (simp add: normalize_def)

subsection \<open>Properties of the normalisation\<close>

text \<open>C3: every record that leaves the normalisation has a truthy id and a truthy title or body.\<close>

theorem normalize_valid: "q \<in> set (normalize raw) \<Longrightarrow> valid_question q"
  by (auto simp: normalize_def keep_question_def valid_question_def split: option.splits)

text \<open>
  The normalisation treats each element on its own and keeps the input
  order: its result is the concatenation of the results for the single elements.
\<close>

theorem normalize_elementwise: "normalize raw = concat (map (\<lambda>x. normalize [x]) raw)"
proof (induction raw)
  case Nil
  show ?case by simp
next
  case (Cons x xs)
  have "normalize (x # xs) = normalize [x] @ normalize xs"
    using normalize_append_elems [of "[x]" xs] by simp
  with Cons show ?case by simp
qed

text \<open>
  C4: a soft-deleted element (either shape) contributes nothing: removing it
  from the input does not change the output.
\<close>

theorem normalize_drops_deleted:
  "soft_deleted x \<Longrightarrow> normalize (xs @ x # ys) = normalize xs @ normalize ys"
  by (simp add: normalize_append_elems normalize_Cons normalize_item_deleted)

text \<open>
  C17: the two record shapes with string fields. A flat record survives
  exactly when its id is non-empty and its title or body is, and keeps its
  fields as they are; a Firestore record \<open>{id, data: {title, body, deleted}}\<close>
  survives exactly when it is not deleted, its id is non-empty and its title
  or body is, and its fields come from \<open>data\<close>.
\<close>

theorem normalize_record_shapes:
  "normalize [JObj [(js_lit ''id'', JStr i), (js_lit ''title'', JStr t), (js_lit ''body'', JStr b)]] =
     (if i \<noteq> [] \<and> (t \<noteq> [] \<or> b \<noteq> []) then [\<lparr>qid = JStr i, qtitle = JStr t, qbody = JStr b\<rparr>] else []) \<and>
   normalize [JObj [(js_lit ''id'', JStr i),
                    (js_lit ''data'', JObj [(js_lit ''title'', JStr t), (js_lit ''body'', JStr b),
                                           (js_lit ''deleted'', JBool d)])]] =
     (if \<not> d \<and> i \<noteq> [] \<and> (t \<noteq> [] \<or> b \<noteq> []) then [\<lparr>qid = JStr i, qtitle = JStr t, qbody = JStr b\<rparr>]
      else [])"
  by (simp add: normalize_Cons normalize_item_def get_prop_def valid_question_def js_or_def)

subsection \<open>Witnesses and findings\<close>

theorem normalize_valid_witness:
  "normalize [JObj [(js_lit ''id'', JStr (js_lit ''abc'')), (js_lit ''title'', JStr (js_lit ''T'')),
                    (js_lit ''body'', JStr [])]] =
     [\<lparr>qid = JStr (js_lit ''abc''), qtitle = JStr (js_lit ''T''), qbody = JStr []\<rparr>] \<and>
   valid_question \<lparr>qid = JStr (js_lit ''abc''), qtitle = JStr (js_lit ''T''), qbody = JStr []\<rparr>"
proof -
  have n: "normalize [JObj [(js_lit ''id'', JStr (js_lit ''abc'')), (js_lit ''title'', JStr (js_lit ''T'')),
                    (js_lit ''body'', JStr [])]] =
     [\<lparr>qid = JStr (js_lit ''abc''), qtitle = JStr (js_lit ''T''), qbody = JStr []\<rparr>]"
    by (simp add: normalize_Cons normalize_item_def get_prop_def valid_question_def js_or_def)
  show ?thesis using n normalize_valid [of _ "[JObj [(js_lit ''id'', JStr (js_lit ''abc'')),
      (js_lit ''title'', JStr (js_lit ''T'')), (js_lit ''body'', JStr [])]]"] by simp
qed

theorem normalize_drops_deleted_witness:
  "soft_deleted (JObj [(js_lit ''id'', JStr (js_lit ''x1'')),
     (js_lit ''data'', JObj [(js_lit ''title'', JStr (js_lit ''T'')), (js_lit ''body'', JStr (js_lit ''B'')),
                            (js_lit ''deleted'', JBool True)])]) \<and>
   normalize [JObj [(js_lit ''id'', JStr (js_lit ''x1'')),
     (js_lit ''data'', JObj [(js_lit ''title'', JStr (js_lit ''T'')), (js_lit ''body'', JStr (js_lit ''B'')),
                            (js_lit ''deleted'', JBool True)])]] = []"
proof -
  let ?x = "JObj [(js_lit ''id'', JStr (js_lit ''x1'')),
     (js_lit ''data'', JObj [(js_lit ''title'', JStr (js_lit ''T'')), (js_lit ''body'', JStr (js_lit ''B'')),
                            (js_lit ''deleted'', JBool True)])]"
  have d: "soft_deleted ?x" by (simp add: soft_deleted_def get_prop_def)
  show ?thesis using d normalize_drops_deleted [OF d, of "[]" "[]"] by simp
qed

theorem normalize_record_shapes_witness:
  "normalize [JObj [(js_lit ''id'', JStr (js_lit ''q'')), (js_lit ''title'', JStr []), (js_lit ''body'', JStr [])]] = [] \<and>
   normalize [JObj [(js_lit ''id'', JStr (js_lit ''q'')),
                    (js_lit ''data'', JObj [(js_lit ''title'', JStr (js_lit ''T'')), (js_lit ''body'', JStr []),
                                           (js_lit ''deleted'', JBool False)])]] =
     [\<lparr>qid = JStr (js_lit ''q''), qtitle = JStr (js_lit ''T''), qbody = JStr []\<rparr>]"
  using normalize_record_shapes [of "js_lit ''q''" "[]" "[]" False]
    normalize_record_shapes [of "js_lit ''q''" "js_lit ''T''" "[]" False] by simp

text \<open>
  C22 (finding): with a truthy \<open>data\<close> the outer \<open>deleted\<close> flag is not
  read: adding a top-level \<open>deleted\<close> member, whatever its value, to a
  Firestore-shaped record changes nothing, so a record marked deleted at the
  top level but not inside \<open>data\<close> is published.
\<close>

theorem normalize_outer_deleted_ignored:
  "truthy (get_prop (JObj kvs) ''data'') \<Longrightarrow>
   normalize [JObj (kvs @ [(js_lit ''deleted'', v)])] = normalize [JObj kvs]"
proof -
  assume d: "truthy (get_prop (JObj kvs) ''data'')"
  have "get_prop (JObj (kvs @ [(js_lit ''deleted'', v)])) ''data'' = get_prop (JObj kvs) ''data''"
    "get_prop (JObj (kvs @ [(js_lit ''deleted'', v)])) ''id'' = get_prop (JObj kvs) ''id''"
    by (simp_all add: get_prop_def)
  with d show ?thesis by (simp add: normalize_Cons normalize_item_def)
qed

text \<open>
  The id test is JavaScript truthiness, so the numeric id \<open>0\<close> is
  dropped although it is neither empty nor missing, while the string \<open>"0"\<close>
  is kept.
\<close>

lemma normalize_zero_id_dropped:
  "normalize [JObj [(js_lit ''id'', JNum 0), (js_lit ''title'', JStr (js_lit ''T''))]] = [] \<and>
   normalize [JObj [(js_lit ''id'', JStr (js_lit ''0'')), (js_lit ''title'', JStr (js_lit ''T''))]] =
     [\<lparr>qid = JStr (js_lit ''0''), qtitle = JStr (js_lit ''T''), qbody = JStr []\<rparr>]"
  by (simp add: normalize_Cons normalize_item_def get_prop_def valid_question_def js_or_def)

theorem normalize_outer_deleted_ignored_witness:
  "normalize [JObj [(js_lit ''id'', JStr (js_lit ''x'')),
                    (js_lit ''data'', JObj [(js_lit ''title'', JStr (js_lit ''T''))]),
                    (js_lit ''deleted'', JBool True)]] =
     [\<lparr>qid = JStr (js_lit ''x''), qtitle = JStr (js_lit ''T''), qbody = JStr []\<rparr>]"
proof -
  let ?kvs = "[(js_lit ''id'', JStr (js_lit ''x'')), (js_lit ''data'', JObj [(js_lit ''title'', JStr (js_lit ''T''))])]"
  have d: "truthy (get_prop (JObj ?kvs) ''data'')" by (simp add: get_prop_def)
  have "normalize [JObj ?kvs] = [\<lparr>qid = JStr (js_lit ''x''), qtitle = JStr (js_lit ''T''), qbody = JStr []\<rparr>]"
    by (simp add: normalize_Cons normalize_item_def get_prop_def valid_question_def js_or_def)
  then show ?thesis using normalize_outer_deleted_ignored [OF d, of "JBool True"] by simp
qed

end
