(* ===== verification/Page.thy ===== *)
theory Page
  imports Escape Clip UriEncode Normalize
begin

text \<open>
  The function \<open>pageHtml\<close> of \<open>src/generate.mjs\<close> (lines 36--72). It
  computes the escaped title \<open>t\<close> (the title, or the default U+8CEA U+554F, "question", when it is
  falsy), the escaped description \<open>desc\<close> (the body clipped to 120 code
  units), and the canonical URL from \<open>encodeURIComponent(id)\<close>, and fills
  them into a fixed template literal together with the escaped body and a
  second \<open>encodeURIComponent(id)\<close>. The ten static pieces of the template,
  \<open>page_tpl0\<close> to \<open>page_tpl9\<close>, are the source text between the
  placeholders, code unit for code unit (non-ASCII text as UTF-16 code units).
  The conversions run in source order: \<open>String()\<close> of the title (line
  37), of the body (line 38) and of the id (line 39, inside
  \<open>encodeURIComponent\<close>), each of which throws \<open>TypeError\<close> on a value
  that is not \<open>to_string_ok\<close>, then the encoding, which throws
  \<open>URIError\<close> on an ill-formed id. Both propagate, so the function returns
  \<open>error + jstr\<close>.
  The lemmas show that no markup character of the page comes from the data
  (the page's \<open><\<close>, \<open>>\<close> and \<open>"\<close> are exactly the template's), that
  the page is produced exactly when the record is \<open>renderable\<close> and its id
  well-formed UTF-16, and where
  title, description and body appear.
\<close>

definition page_tpl0 :: jstr where
  \<open>page_tpl0 =
     js_lit ''<!doctype html>'' @
     [cu_newline] @
     js_lit ''<html lang="ja">'' @
     [cu_newline] @
     js_lit ''<head>'' @
     [cu_newline] @
     js_lit ''  <meta charset="utf-8"/>'' @
     [cu_newline] @
     js_lit ''  <meta name="viewport" content="width=device-width,initial-scale=1"/>'' @
     [cu_newline] @
     js_lit ''  <title>''\<close>

definition page_tpl1 :: jstr where
  \<open>page_tpl1 =
     js_lit '' | '' @
     [0x6574, 0x5F62, 0x76F8, 0x8AC7, 0x5BA4] @
     js_lit ''</title>'' @
     [cu_newline] @
     js_lit ''  <meta name="description" content="''\<close>

definition page_tpl2 :: jstr where
  \<open>page_tpl2 =
     js_lit ''">'' @
     [cu_newline] @
     js_lit ''  <link rel="canonical" href="''\<close>

definition page_tpl3 :: jstr where
  \<open>page_tpl3 =
     js_lit ''">'' @
     [cu_newline] @
     js_lit ''  <meta property="og:type" content="article">'' @
     [cu_newline] @
     js_lit ''  <meta property="og:title" content="''\<close>

definition page_tpl4 :: jstr where
  \<open>page_tpl4 =
     js_lit ''">'' @
     [cu_newline] @
     js_lit ''  <meta property="og:description" content="''\<close>

definition page_tpl5 :: jstr where
  \<open>page_tpl5 =
     js_lit ''">'' @
     [cu_newline] @
     js_lit ''  <meta property="og:url" content="''\<close>

definition page_tpl6 :: jstr where
  \<open>page_tpl6 =
     js_lit ''">'' @
     [cu_newline] @
     js_lit ''  <meta name="twitter:card" content="summary">'' @
     [cu_newline] @
     js_lit ''</head>'' @
     [cu_newline] @
     js_lit ''<body>'' @
     [cu_newline] @
     js_lit ''  <main style="max-width:820px;margin:28px auto;padding:0 14px;font-family:system-ui,-apple-system,Segoe UI,Roboto,'Noto Sans JP',sans-serif;">'' @
     [cu_newline] @
     js_lit ''    <h1 style="font-size:20px;line-height:1.35;margin:0 0 10px 0;">''\<close>

definition page_tpl7 :: jstr where
  \<open>page_tpl7 =
     js_lit ''</h1>'' @
     [cu_newline] @
     js_lit ''    <div style="white-space:pre-wrap;line-height:1.7;color:#111;">''\<close>

definition page_tpl8 :: jstr where
  \<open>page_tpl8 =
     js_lit ''</div>'' @
     [cu_newline] @
     [cu_newline] @
     js_lit ''    <hr style="margin:18px 0;border:none;border-top:1px solid #eee">'' @
     [cu_newline] @
     [cu_newline] @
     js_lit ''    <a href="../q.html?id=''\<close>

definition page_tpl9 :: jstr where
  \<open>page_tpl9 =
     js_lit ''" style="display:inline-block;padding:10px 12px;border:1px solid #ddd;border-radius:10px;text-decoration:none;">'' @
     [cu_newline] @
     js_lit ''      '' @
     [0x56DE, 0x7B54, 0x3092, 0x898B, 0x308B] @
     js_lit '' / '' @
     [0x56DE, 0x7B54, 0x3059, 0x308B] @
     [cu_newline] @
     js_lit ''    </a>'' @
     [cu_newline] @
     [cu_newline] @
     js_lit ''    <div style="margin-top:14px;font-size:12px;color:#666;">'' @
     [cu_newline] @
     js_lit ''      '' @
     [0x203B, 0x3053, 0x306E, 0x30DA, 0x30FC, 0x30B8, 0x306F, 0x691C, 0x7D22, 0x5411, 0x3051, 0x306E, 0x8868, 0x793A, 0x3067, 0x3059, 0x3002, 0x5B9F, 0x969B, 0x306E, 0x56DE, 0x7B54, 0x30FB, 0x6295, 0x7A3F, 0x306F, 0x30A2, 0x30D7, 0x30EA, 0x30DA, 0x30FC, 0x30B8, 0x3067, 0x884C, 0x3048, 0x307E, 0x3059, 0x3002] @
     [cu_newline] @
     js_lit ''    </div>'' @
     [cu_newline] @
     js_lit ''  </main>'' @
     [cu_newline] @
     js_lit ''</body>'' @
     [cu_newline] @
     js_lit ''</html>''\<close>

text \<open>The default title, U+8CEA U+554F ("question").\<close>

definition title_default :: jstr where
  "title_default = [0x8CEA, 0x554F]"

definition page_title :: "question \<Rightarrow> jstr" where
  "page_title q = esc (js_or (qtitle q) (JStr title_default))"

definition page_desc :: "question \<Rightarrow> jstr" where
  "page_desc q = esc (JStr (clip (js_or (qbody q) (JStr [])) 120))"

definition canonical_url :: "jstr \<Rightarrow> jstr" where
  "canonical_url enc = js_lit ''https://seikei-qa.github.io/seikei-soudan/q/'' @ enc @ js_lit ''.html''"

text \<open>
  \<open>pageHtml\<close> converts, in source order, \<open>title || "..."\<close> (\<open>esc\<close>, line
  37), \<open>body || ""\<close> (\<open>clip\<close>, line 38) and \<open>id\<close> (\<open>encodeURIComponent\<close>,
  line 39) to strings; the first that cannot be converted throws a
  \<open>TypeError\<close>, and an ill-formed id then throws a \<open>URIError\<close>. The later
  conversions of the same values (lines 58 and 62) succeed like the first.
\<close>

definition page_html :: "question \<Rightarrow> error + jstr" where
  "page_html q =
     (if \<not> to_string_ok (js_or (qtitle q) (JStr title_default)) then Inl TypeError
      else if \<not> to_string_ok (js_or (qbody q) (JStr [])) then Inl TypeError
      else if \<not> to_string_ok (qid q) then Inl TypeError
      else
       (let t = page_title q; desc = page_desc q in
        case encode_uri_component (js_string (qid q)) of
          Inl e \<Rightarrow> Inl e
        | Inr enc \<Rightarrow>
            (let canonical = canonical_url enc in
             case encode_uri_component (js_string (qid q)) of
               Inl e \<Rightarrow> Inl e
             | Inr enc' \<Rightarrow>
                 Inr (page_tpl0 @ t @ page_tpl1 @ desc @ page_tpl2 @ canonical @ page_tpl3 @ t @
                      page_tpl4 @ desc @ page_tpl5 @ canonical @ page_tpl6 @ t @ page_tpl7 @
                      esc (js_or (qbody q) (JStr [])) @ page_tpl8 @ enc' @ page_tpl9))))"

text \<open>The three values \<open>pageHtml\<close> converts can all be converted.\<close>

definition renderable :: "question \<Rightarrow> bool" where
  "renderable q \<longleftrightarrow>
     to_string_ok (js_or (qtitle q) (JStr title_default)) \<and> to_string_ok (js_or (qbody q) (JStr [])) \<and>
     to_string_ok (qid q)"

text \<open>The template with every placeholder empty.\<close>

definition page_skeleton :: jstr where
  "page_skeleton =
     page_tpl0 @ page_tpl1 @ page_tpl2 @ page_tpl3 @ page_tpl4 @ page_tpl5 @ page_tpl6 @
     page_tpl7 @ page_tpl8 @ page_tpl9"

definition is_markup :: "cu \<Rightarrow> bool" where
  "is_markup c \<longleftrightarrow> c = cu_lt \<or> c = cu_gt \<or> c = cu_quot"

subsection \<open>Lemmas\<close>

lemma uri_unreserved_not_markup: "uri_unreserved c \<Longrightarrow> \<not> is_markup c"
  by (auto simp: uri_unreserved_def is_markup_def word_le_nat_alt)

lemma filter_markup_html_escape [simp]: "filter is_markup (html_escape s) = []"
  using markup_free_html_escape [of s]
  by (auto simp: markup_free_def is_markup_def filter_empty_conv)

lemma filter_markup_esc [simp]: "filter is_markup (esc v) = []"
  by (simp add: esc_def)

lemma filter_markup_encode:
  "encode_uri_component s = Inr r \<Longrightarrow> filter is_markup r = []"
  using encode_uri_component_set [of s r] uri_unreserved_not_markup
  by (force simp: filter_empty_conv is_markup_def)

lemma filter_markup_canonical:
  "filter is_markup enc = [] \<Longrightarrow> filter is_markup (canonical_url enc) = []"
  by (simp add: canonical_url_def is_markup_def)

lemma page_html_TypeError: "\<not> renderable q \<Longrightarrow> page_html q = Inl TypeError"
  by (auto simp: page_html_def renderable_def)

lemma page_html_Inr:
  "renderable q \<Longrightarrow> encode_uri_component (js_string (qid q)) = Inr enc \<Longrightarrow>
   page_html q =
     Inr (page_tpl0 @ page_title q @ page_tpl1 @ page_desc q @ page_tpl2 @ canonical_url enc @
          page_tpl3 @ page_title q @ page_tpl4 @ page_desc q @ page_tpl5 @ canonical_url enc @
          page_tpl6 @ page_title q @ page_tpl7 @ esc (js_or (qbody q) (JStr [])) @ page_tpl8 @
          enc @ page_tpl9)"
  by (simp add: page_html_def renderable_def Let_def)

lemma page_html_Inl:
  "renderable q \<Longrightarrow> encode_uri_component (js_string (qid q)) = Inl e \<Longrightarrow> page_html q = Inl e"
  by (simp add: page_html_def renderable_def)

lemma page_html_wf:
  "renderable q \<Longrightarrow> well_formed_utf16 (js_string (qid q)) \<Longrightarrow> \<exists>h. page_html q = Inr h"
  using encode_uri_component_wf [of "js_string (qid q)"] page_html_Inr by blast

subsection \<open>Properties of the page\<close>

text \<open>
  C2: no markup comes from the data: the sequence of \<open><\<close>, \<open>>\<close> and
  \<open>"\<close> in a generated page is exactly that of the template, whatever the
  record holds.
\<close>

theorem page_html_no_injection:
  "page_html q = Inr p \<Longrightarrow> filter is_markup p = filter is_markup page_skeleton"
proof (cases "renderable q \<and> (\<exists>enc. encode_uri_component (js_string (qid q)) = Inr enc)")
  case False
  moreover assume "page_html q = Inr p"
  ultimately show ?thesis
    by (cases "encode_uri_component (js_string (qid q))"; cases "renderable q")
       (auto simp: page_html_Inl page_html_TypeError)
next
  case True
  then obtain enc where r: "renderable q" and e: "encode_uri_component (js_string (qid q)) = Inr enc"
    by blast
  assume "page_html q = Inr p"
  with r e have p: "p = page_tpl0 @ page_title q @ page_tpl1 @ page_desc q @ page_tpl2 @
      canonical_url enc @ page_tpl3 @ page_title q @ page_tpl4 @ page_desc q @ page_tpl5 @
      canonical_url enc @ page_tpl6 @ page_title q @ page_tpl7 @ esc (js_or (qbody q) (JStr [])) @
      page_tpl8 @ enc @ page_tpl9"
    by (simp add: page_html_Inr)
  have enc: "filter is_markup enc = []" using e by (rule filter_markup_encode)
  then have "filter is_markup (canonical_url enc) = []" by (rule filter_markup_canonical)
  with enc show ?thesis
    by (simp add: p page_skeleton_def page_title_def page_desc_def)
qed

text \<open>
  C11: \<open>pageHtml\<close> produces a page exactly when its three conversions
  succeed and \<open>String(id)\<close> is well-formed UTF-16. Otherwise it throws
  \<open>TypeError\<close> when a conversion fails (an object with an own
  \<open>toString\<close> member as title, body or id), and \<open>URIError\<close> when the
  conversions succeed but the id is ill-formed.
\<close>

theorem page_html_ok_iff:
  "((\<exists>p. page_html q = Inr p) \<longleftrightarrow> renderable q \<and> well_formed_utf16 (js_string (qid q))) \<and>
   (page_html q = Inl e \<longleftrightarrow>
      (\<not> renderable q \<and> e = TypeError) \<or>
      (renderable q \<and> \<not> well_formed_utf16 (js_string (qid q)) \<and> e = UriError))"
proof (cases "renderable q")
  case False
  then show ?thesis by (auto simp: page_html_TypeError)
next
  case True
  show ?thesis
  proof (cases "encode_uri_component (js_string (qid q))")
    case (Inl e')
    then have "e' = UriError \<and> \<not> well_formed_utf16 (js_string (qid q))"
      using encode_uri_component_error by blast
    with True Inl show ?thesis by (auto simp: page_html_Inl)
  next
    case (Inr r)
    then have "well_formed_utf16 (js_string (qid q))" using encode_uri_component_wf by blast
    with True Inr show ?thesis by (simp add: page_html_Inr)
  qed
qed

text \<open>
  The title shown is the escaped \<open>String(title)\<close> when the title is
  truthy and the fixed text U+8CEA U+554F ("question") otherwise.
\<close>

lemma page_title_cases:
  "page_title q = (if truthy (qtitle q) then html_escape (js_string (qtitle q)) else title_default)"
proof (cases "truthy (qtitle q)")
  case True
  then have "qtitle q \<noteq> JUndef" by auto
  with True show ?thesis by (simp add: page_title_def esc_def)
next
  case False
  have "html_escape title_default = title_default"
    by (simp add: title_default_def html_escape_Cons esc_char_def)
  with False show ?thesis by (simp add: page_title_def esc_def title_default_def)
qed

text \<open>
  The description in the page can be 121 code units long: a body of
  130 letters gives its first 120 and the ellipsis.
\<close>

theorem page_desc_121:
  "page_desc \<lparr>qid = JStr [97], qtitle = JStr [97], qbody = JStr (replicate 130 97)\<rparr> =
     replicate 120 97 @ [cu_ellipsis]"
proof -
  have ws: "\<forall>c\<in>set (replicate 130 (97::cu)). \<not> is_ws c" by (simp add: is_ws_def)
  have "clip (JStr (replicate 130 97)) 120 = replicate 120 97 @ [cu_ellipsis]"
    by (simp add: clip_def collapse_ws_no_ws [OF ws] js_trim_no_ws [OF ws])
  moreover have "html_escape (replicate 120 97 @ [cu_ellipsis]) = replicate 120 97 @ [cu_ellipsis]"
    by (rule html_escape_plain) (simp add: esc_char_def)
  ultimately show ?thesis by (simp add: page_desc_def esc_def)
qed

theorem page_html_no_injection_witness:
  "\<exists>p. page_html \<lparr>qid = JStr (js_lit ''x''), qtitle = JStr (js_lit ''<b>''),
                    qbody = JStr (js_lit ''</div><script>'')\<rparr> = Inr p \<and>
       filter is_markup p = filter is_markup page_skeleton"
proof -
  let ?q = "\<lparr>qid = JStr (js_lit ''x''), qtitle = JStr (js_lit ''<b>''),
             qbody = JStr (js_lit ''</div><script>'')\<rparr>"
  have "encode_uri_component (js_string (qid ?q)) = Inr (js_lit ''x'')"
    by (simp add: uri_unreserved_def)
  moreover have "renderable ?q" by (simp add: renderable_def)
  ultimately obtain p where p: "page_html ?q = Inr p" using page_html_Inr by blast
  then show ?thesis using page_html_no_injection [OF p] by blast
qed

theorem page_html_ok_iff_witness:
  "page_html \<lparr>qid = JStr (js_lit ''a''), qtitle = JObj [(js_lit ''toString'', JNum 1)], qbody = JStr []\<rparr> =
     Inl TypeError \<and>
   page_html \<lparr>qid = JStr [0xD800], qtitle = JStr (js_lit ''T''), qbody = JStr []\<rparr> = Inl UriError"
proof -
  let ?q1 = "\<lparr>qid = JStr (js_lit ''a''), qtitle = JObj [(js_lit ''toString'', JNum 1)], qbody = JStr []\<rparr>"
  let ?q2 = "\<lparr>qid = JStr [0xD800], qtitle = JStr (js_lit ''T''), qbody = JStr []\<rparr>"
  have n1: "\<not> renderable ?q1" by (simp add: renderable_def)
  have r2: "renderable ?q2" and w2: "\<not> well_formed_utf16 (js_string (qid ?q2))"
    by (simp_all add: renderable_def is_high_surrogate_def)
  show ?thesis
    using page_html_ok_iff [of ?q1 TypeError] page_html_ok_iff [of ?q2 UriError] n1 r2 w2 by blast
qed

end
