(* ===== verification/Generate.thy ===== *)
theory Generate
  imports Page
begin

text \<open>
  The file-system side of \<open>src/generate.mjs\<close>: \<open>ensureDir\<close> (lines 22--24),
  \<open>loadJson\<close> (lines 26--34) and the body of \<open>run\<close> (lines 74--113), which
  creates the output root, loads and normalises the records, creates
  \<open>q/\<close>, writes one page per record, writes \<open>sitemap.xml\<close> and prints a
  summary. The state is a \<open>world\<close>: the set of existing directories, the
  files with their contents (a path is a list of segments from the file-system
  root) and the lines printed so far. \<open>process.cwd()\<close> is the parameter
  \<open>root\<close>, \<open>JSON.parse\<close> the parameter \<open>parse\<close> (\<open>None\<close> for a
  \<open>SyntaxError\<close>), and file contents are kept as the JavaScript strings that
  were written (the UTF-8 coding of \<open>readFileSync\<close>/\<open>writeFileSync\<close> is
  the theory \<open>FileText\<close>). \<open>writeFileSync\<close> rejects a path holding the
  code unit U+0000 with a \<open>TypeError\<close> before touching the disk
  (\<open>path_ok\<close>). \<open>path.join\<close> is POSIX normalisation: the relative part is split
  at \<open>/\<close>, empty and \<open>.\<close> segments are dropped and \<open>..\<close> removes the last
  segment. \<open>run\<close> returns the outcome (\<open>Inl\<close> the uncaught error that ends the
  process) and the world it leaves, including what was written before a failure.
  The lemmas give the run's result on a missing or malformed input, on a
  successful run and on a page that cannot be rendered or written in the
  write loop, count the sitemap entries and the page files, and locate the
  page files (always a name ending in \<open>.html\<close>, but outside \<open>q/\<close> for an
  id with \<open>..\<close>).
\<close>

record world =
  dirs :: "jstr list set"
  files :: "jstr list \<Rightarrow> jstr option"
  stdout :: "jstr list"

subsection \<open>Paths\<close>

fun split_path :: "jstr \<Rightarrow> jstr \<Rightarrow> jstr list" where
  "split_path cur [] = [cur]"
| "split_path cur (c # cs) =
     (if c = cu_slash then cur # split_path [] cs else split_path (cur @ [c]) cs)"

definition path_seg_step :: "jstr list \<Rightarrow> jstr \<Rightarrow> jstr list" where
  "path_seg_step acc seg =
     (if seg = [] \<or> seg = js_lit ''.'' then acc
      else if seg = js_lit ''..'' then butlast acc
      else acc @ [seg])"

definition path_join :: "jstr list \<Rightarrow> jstr \<Rightarrow> jstr list" where
  "path_join base rel = foldl path_seg_step base (split_path [] rel)"

definition path_string :: "jstr list \<Rightarrow> jstr" where
  "path_string segs = (if segs = [] then [cu_slash] else concat (map (\<lambda>s. cu_slash # s) segs))"

subsection \<open>File-system operations\<close>

definition ancestors :: "jstr list \<Rightarrow> jstr list list" where
  "ancestors p = map (\<lambda>n. take n p) [0..<Suc (length p)]"

text \<open>
  \<open>fs.mkdirSync(p, {recursive: true})\<close>: creates \<open>p\<close> and its missing
  ancestors; it fails when one of them is a file.
\<close>

definition ensure_dir :: "jstr list \<Rightarrow> world \<Rightarrow> error + world" where
  "ensure_dir p w =
     (if list_ex (\<lambda>a. files w a \<noteq> None) (ancestors p) then Inl WriteError
      else Inr (w\<lparr>dirs := dirs w \<union> set (ancestors p)\<rparr>))"

text \<open>
  \<open>fs.writeFileSync(p, c)\<close>: creates or overwrites the file. Node first
  rejects a path holding a null character (\<open>ERR_INVALID_ARG_VALUE\<close>, a
  \<open>TypeError\<close>); the write fails when the parent directory is missing or
  \<open>p\<close> is a directory.
\<close>

definition path_ok :: "jstr list \<Rightarrow> bool" where
  "path_ok p \<longleftrightarrow> list_all (\<lambda>s. (0 :: cu) \<notin> set s) p"

definition write_file :: "jstr list \<Rightarrow> jstr \<Rightarrow> world \<Rightarrow> error + world" where
  "write_file p c w =
     (if \<not> path_ok p then Inl TypeError
      else if p \<noteq> [] \<and> butlast p \<in> dirs w \<and> p \<notin> dirs w
      then Inr (w\<lparr>files := (files w)(p \<mapsto> c)\<rparr>)
      else Inl WriteError)"

text \<open>
  \<open>loadJson\<close>: \<open>existsSync\<close> holds for a file or a directory; reading a
  directory fails; the parsed value must be an array.
\<close>

text \<open>The three names the script joins to its root: \<open>questions.json\<close>, \<open>q\<close>, \<open>sitemap.xml\<close>.\<close>

definition input_name :: jstr where "input_name = js_lit ''questions.json''"
definition q_name :: jstr where "q_name = js_lit ''q''"
definition sitemap_name :: jstr where "sitemap_name = js_lit ''sitemap.xml''"

definition input_path :: "jstr list \<Rightarrow> jstr list" where
  "input_path root = path_join root input_name"

definition load_json :: "(jstr \<Rightarrow> jsval option) \<Rightarrow> jstr list \<Rightarrow> world \<Rightarrow> error + jsval list" where
  "load_json parse root w =
     (if files w (input_path root) = None \<and> input_path root \<notin> dirs w then Inl ConfigError
      else case files w (input_path root) of
        None \<Rightarrow> Inl ReadError
      | Some raw \<Rightarrow>
          (case parse raw of
             None \<Rightarrow> Inl ParseError
           | Some (JArr arr) \<Rightarrow> Inr arr
           | Some _ \<Rightarrow> Inl SchemaError))"

subsection \<open>Pages, sitemap and summary\<close>

definition page_file :: "jstr list \<Rightarrow> question \<Rightarrow> jstr list" where
  "page_file qdir q = path_join qdir (js_string (qid q) @ js_lit ''.html'')"

text \<open>The loop \<open>for (const q of qs)\<close>: render, then write; the first error stops it.\<close>

fun write_pages :: "jstr list \<Rightarrow> question list \<Rightarrow> world \<Rightarrow> (error + unit) \<times> world" where
  "write_pages qdir [] w = (Inr (), w)"
| "write_pages qdir (q # qs) w =
     (case page_html q of
        Inl e \<Rightarrow> (Inl e, w)
      | Inr html \<Rightarrow>
          (case write_file (page_file qdir q) html w of
             Inl e \<Rightarrow> (Inl e, w)
           | Inr w' \<Rightarrow> write_pages qdir qs w'))"

definition sitemap_url :: "question \<Rightarrow> jstr" where
  "sitemap_url q = js_lit ''https://seikei-qa.github.io/seikei-soudan/q/'' @ js_string (qid q) @ js_lit ''.html''"

definition sitemap_entry :: "jstr \<Rightarrow> jstr" where
  "sitemap_entry u = js_lit ''  <url><loc>'' @ u @ js_lit ''</loc></url>''"

definition sitemap_xml :: "question list \<Rightarrow> jstr" where
  \<open>sitemap_xml qs =
     js_lit ''<?xml version="1.0" encoding="UTF-8"?>'' @ [cu_newline] @
     js_lit ''<urlset xmlns="http://www.sitemaps.org/schemas/sitemap/0.9">'' @ [cu_newline] @
     join [cu_newline] (map sitemap_entry (map sitemap_url qs)) @ [cu_newline] @
     js_lit ''</urlset>''\<close>

definition summary_line :: "nat \<Rightarrow> jstr list \<Rightarrow> jstr" where
  "summary_line n root =
     js_lit ''OK: '' @ dec_digits n @ js_lit '' '' @
     [0x4EF6, 0x751F, 0x6210, 0x3057, 0x307E, 0x3057, 0x305F] @ js_lit '' -> '' @ path_string root"

text \<open>
  The files the loop leaves, as a map: each record's page at its path, a later
  record overwriting an earlier one with the same path.
\<close>

definition page_of :: "question \<Rightarrow> jstr" where
  "page_of q = (case page_html q of Inr h \<Rightarrow> h | Inl _ \<Rightarrow> [])"

definition page_map :: "jstr list \<Rightarrow> question list \<Rightarrow> jstr list \<Rightarrow> jstr option" where
  "page_map qdir qs = map_of (rev (map (\<lambda>q. (page_file qdir q, page_of q)) qs))"

subsection \<open>The whole run\<close>

definition run :: "(jstr \<Rightarrow> jsval option) \<Rightarrow> jstr list \<Rightarrow> world \<Rightarrow> (error + unit) \<times> world" where
  "run parse root w0 =
     (case ensure_dir root w0 of
        Inl e \<Rightarrow> (Inl e, w0)
      | Inr w1 \<Rightarrow>
          (case load_json parse root w1 of
             Inl e \<Rightarrow> (Inl e, w1)
           | Inr raw \<Rightarrow>
               (let qs = normalize raw; qdir = path_join root q_name in
                case ensure_dir qdir w1 of
                  Inl e \<Rightarrow> (Inl e, w1)
                | Inr w2 \<Rightarrow>
                    (case write_pages qdir qs w2 of
                       (Inl e, w3) \<Rightarrow> (Inl e, w3)
                     | (Inr _, w3) \<Rightarrow>
                         (case write_file (path_join root sitemap_name) (sitemap_xml qs) w3 of
                            Inl e \<Rightarrow> (Inl e, w3)
                          | Inr w4 \<Rightarrow>
                              (Inr (), w4\<lparr>stdout := stdout w4 @ [summary_line (length qs) root]\<rparr>))))))"

subsection \<open>Example data\<close>

text \<open>
  The record of the specification's end-to-end example: id \<open>abc\<close>, title
  \<open>U+9F3B U+306E U+76F8 U+8AC7 ("consultation about the nose")\<close>, body \<open>a 17-unit Japanese question\<close>, and the
  question it normalises to.
\<close>

definition example_record :: jsval where
  "example_record =
     JObj [(js_lit ''id'', JStr (js_lit ''abc'')), (js_lit ''title'', JStr [0x9F3B, 0x306E, 0x76F8, 0x8AC7]),
           (js_lit ''body'', JStr [0x8853, 0x5F8C, 0x0031, 0x9031, 0x9593, 0x3067, 0x3059, 0x3002,
                                  0x816B, 0x308C, 0x306F, 0x5F15, 0x304D, 0x307E, 0x3059, 0x304B, 0xFF1F])]"

definition example_question :: question where
  "example_question =
     \<lparr>qid = JStr (js_lit ''abc''), qtitle = JStr [0x9F3B, 0x306E, 0x76F8, 0x8AC7],
      qbody = JStr [0x8853, 0x5F8C, 0x0031, 0x9031, 0x9593, 0x3067, 0x3059, 0x3002,
                   0x816B, 0x308C, 0x306F, 0x5F15, 0x304D, 0x307E, 0x3059, 0x304B, 0xFF1F]\<rparr>"

subsection \<open>Lemmas on paths\<close>

lemma split_path_no_slash: "cu_slash \<notin> set s \<Longrightarrow> split_path cur s = [cur @ s]"
  by (induction s arbitrary: cur) auto

lemma path_join_plain:
  "cu_slash \<notin> set s \<Longrightarrow> s \<noteq> [] \<Longrightarrow> s \<noteq> js_lit ''.'' \<Longrightarrow> s \<noteq> js_lit ''..'' \<Longrightarrow>
   path_join base s = base @ [s]"
  by (simp add: path_join_def split_path_no_slash path_seg_step_def)

lemma path_join_names [simp]:
  "path_join root q_name = root @ [q_name]"
  "path_join root sitemap_name = root @ [sitemap_name]"
  "path_join root input_name = root @ [input_name]"
  by (simp_all add: path_join_def path_seg_step_def q_name_def sitemap_name_def input_name_def)

lemma names_distinct [simp]:
  "sitemap_name \<noteq> q_name" "input_name \<noteq> q_name" "sitemap_name \<noteq> input_name"
  "q_name \<noteq> sitemap_name" "q_name \<noteq> input_name" "input_name \<noteq> sitemap_name"
  by (simp_all add: q_name_def sitemap_name_def input_name_def)

lemma page_file_plain:
  "cu_slash \<notin> set (js_string (qid q)) \<Longrightarrow>
   page_file qdir q = qdir @ [js_string (qid q) @ js_lit ''.html'']"
proof -
  assume ns: "cu_slash \<notin> set (js_string (qid q))"
  let ?n = "js_string (qid q) @ js_lit ''.html''"
  have "length ?n \<ge> 5" by simp
  then have "?n \<noteq> [] \<and> ?n \<noteq> js_lit ''.'' \<and> ?n \<noteq> js_lit ''..''"
    by (auto dest: arg_cong [where f = length])
  moreover have "cu_slash \<notin> set ?n" using ns by simp
  ultimately show ?thesis by (simp add: page_file_def path_join_plain)
qed

lemma set_ancestors: "set (ancestors p) = {take n p | n. n \<le> length p}"
proof
  show "set (ancestors p) \<subseteq> {take n p | n. n \<le> length p}"
    by (auto simp: ancestors_def) (rule exI [where x = "length p"], simp)
  show "{take n p | n. n \<le> length p} \<subseteq> set (ancestors p)"
    by (force simp: ancestors_def)
qed

lemma ancestors_append_one: "set (ancestors p) \<subseteq> set (ancestors (p @ [x]))"
proof
  fix a
  assume "a \<in> set (ancestors p)"
  then obtain n where n: "n \<le> length p" and a: "a = take n p"
    by (auto simp: set_ancestors)
  then have "a = take n (p @ [x])" by simp
  moreover have "n \<le> length (p @ [x])" using n by simp
  ultimately show "a \<in> set (ancestors (p @ [x]))"
    unfolding set_ancestors by blast
qed

lemma length_ancestor: "a \<in> set (ancestors p) \<Longrightarrow> length a \<le> length p"
  by (auto simp: set_ancestors)

lemma self_ancestor: "p \<in> set (ancestors p)"
proof -
  have "p = take (length p) p" by simp
  then show ?thesis unfolding set_ancestors by blast
qed

lemma butlast_ancestor: "butlast p \<in> set (ancestors p)"
proof -
  have "butlast p = take (length p - 1) p" by (simp add: butlast_conv_take)
  then show ?thesis unfolding set_ancestors by force
qed

lemma split_path_nonempty: "split_path cur s \<noteq> []"
  by (induction cur s rule: split_path.induct) auto

lemma split_path_append_plain:
  "cu_slash \<notin> set t \<Longrightarrow>
   split_path cur (s @ t) = butlast (split_path cur s) @ [last (split_path cur s) @ t]"
proof (induction cur s rule: split_path.induct)
  case (1 cur)
  then show ?case by (simp add: split_path_no_slash)
next
  case (2 cur c cs)
  then show ?case using split_path_nonempty [of "[]" cs] by simp
qed

lemma path_join_last:
  assumes "cu_slash \<notin> set t" and "length t \<ge> 3"
  shows "\<exists>pre. path_join base (s @ t) = pre @ [last (split_path [] s) @ t]"
proof -
  let ?l = "last (split_path [] s) @ t"
  have "?l \<noteq> [] \<and> ?l \<noteq> js_lit ''.'' \<and> ?l \<noteq> js_lit ''..''"
    using assms(2) by (auto dest: arg_cong [where f = length])
  then have "path_seg_step acc ?l = acc @ [?l]" for acc by (simp add: path_seg_step_def)
  then show ?thesis
    using assms(1) by (simp add: path_join_def split_path_append_plain)
qed

lemma html_name_not_sitemap: "n @ js_lit ''.html'' \<noteq> sitemap_name"
proof
  assume "n @ js_lit ''.html'' = sitemap_name"
  then have "rev (n @ js_lit ''.html'') = rev sitemap_name" by simp
  then show False by (simp add: sitemap_name_def)
qed

lemma html_name_not_input: "n @ js_lit ''.html'' \<noteq> input_name"
proof
  assume "n @ js_lit ''.html'' = input_name"
  then have "rev (n @ js_lit ''.html'') = rev input_name" by simp
  then show False by (simp add: input_name_def)
qed

lemma page_file_shape: "\<exists>pre n. page_file qdir q = pre @ [n @ js_lit ''.html'']"
  using path_join_last [of "js_lit ''.html''" qdir "js_string (qid q)"] by (auto simp: page_file_def)

lemma page_file_not_input: "page_file qdir q \<noteq> input_path root"
proof -
  obtain pre n where p: "page_file qdir q = pre @ [n @ js_lit ''.html'']"
    using page_file_shape [of qdir q] by blast
  show ?thesis using html_name_not_input [of n] by (simp add: p input_path_def)
qed

subsection \<open>Lemmas on the file-system operations\<close>

lemma ensure_dir_ok:
  "\<forall>a\<in>set (ancestors p). files w a = None \<Longrightarrow>
   ensure_dir p w = Inr (w\<lparr>dirs := dirs w \<union> set (ancestors p)\<rparr>)"
  by (auto simp: ensure_dir_def list_ex_iff)

lemma ensure_dir_frame:
  "ensure_dir p w = Inr w' \<Longrightarrow> files w' = files w \<and> stdout w' = stdout w \<and> dirs w \<subseteq> dirs w'"
  by (auto simp: ensure_dir_def split: if_splits)

lemma ensure_dir_Inl: "ensure_dir p w = Inl e \<Longrightarrow> e = WriteError"
  by (simp add: ensure_dir_def split: if_splits)

lemma write_file_ok:
  "path_ok p \<Longrightarrow> p \<noteq> [] \<Longrightarrow> butlast p \<in> dirs w \<Longrightarrow> p \<notin> dirs w \<Longrightarrow>
   write_file p c w = Inr (w\<lparr>files := (files w)(p \<mapsto> c)\<rparr>)"
  by (simp add: write_file_def)

lemma page_map_Cons:
  "(files w)(page_file qdir q \<mapsto> page_of q) ++ page_map qdir qs = files w ++ page_map qdir (q # qs)"
  by (simp add: page_map_def map_of_append)

lemma write_pages_append:
  assumes "\<forall>q\<in>set pre. (\<exists>h. page_html q = Inr h) \<and> path_ok (page_file qdir q) \<and> page_file qdir q \<noteq> [] \<and>
             butlast (page_file qdir q) \<in> dirs w \<and> page_file qdir q \<notin> dirs w"
  shows "write_pages qdir (pre @ rest) w = write_pages qdir rest (w\<lparr>files := files w ++ page_map qdir pre\<rparr>)"
  using assms
proof (induction pre arbitrary: w)
  case Nil
  then show ?case by (simp add: page_map_def)
next
  case (Cons q qs)
  then obtain h where h: "page_html q = Inr h" by auto
  then have po: "page_of q = h" by (simp add: page_of_def)
  let ?w' = "w\<lparr>files := (files w)(page_file qdir q \<mapsto> h)\<rparr>"
  have wr: "write_file (page_file qdir q) h w = Inr ?w'"
    using Cons.prems by (simp add: write_file_ok)
  have "write_pages qdir (qs @ rest) ?w' = write_pages qdir rest (?w'\<lparr>files := files ?w' ++ page_map qdir qs\<rparr>)"
    using Cons.prems by (intro Cons.IH) simp
  then show ?case using h wr po page_map_Cons [of w qdir q qs] by simp
qed

lemma write_pages_ok:
  assumes "\<forall>q\<in>set qs. (\<exists>h. page_html q = Inr h) \<and> path_ok (page_file qdir q) \<and> page_file qdir q \<noteq> [] \<and>
             butlast (page_file qdir q) \<in> dirs w \<and> page_file qdir q \<notin> dirs w"
  shows "write_pages qdir qs w = (Inr (), w\<lparr>files := files w ++ page_map qdir qs\<rparr>)"
  using write_pages_append [OF assms, of "[]"] by simp

lemma write_file_frame:
  "write_file p c w = Inr w' \<Longrightarrow> p' \<noteq> p \<Longrightarrow> files w' p' = files w p'"
  by (auto simp: write_file_def split: if_splits)

lemma write_pages_frame:
  "(\<forall>q\<in>set qs. p \<noteq> page_file qdir q) \<Longrightarrow> files (snd (write_pages qdir qs w)) p = files w p"
proof (induction qs arbitrary: w)
  case Nil
  then show ?case by simp
next
  case (Cons q qs)
  then show ?case
    by (auto split: sum.splits dest: write_file_frame)
qed

lemma ancestor_same_length: "a \<in> set (ancestors p) \<Longrightarrow> length a = length p \<Longrightarrow> a = p"
  by (auto simp: set_ancestors)

lemma ensure_dir_root_ok:
  assumes "\<forall>a\<in>set (ancestors (root @ [x])). files w a = None"
  shows "ensure_dir root w = Inr (w\<lparr>dirs := dirs w \<union> set (ancestors root)\<rparr>)"
  using assms ancestors_append_one [of root x] by (intro ensure_dir_ok) blast

lemma load_json_present:
  "files w (input_path root) = Some txt \<Longrightarrow>
   load_json parse root w =
     (case parse txt of None \<Rightarrow> Inl ParseError | Some (JArr arr) \<Rightarrow> Inr arr | Some _ \<Rightarrow> Inl SchemaError)"
  by (simp add: load_json_def)

lemma input_path_not_ancestor: "input_path root \<notin> set (ancestors root)"
  using length_ancestor [of "input_path root" root] by (auto simp: input_path_def)

lemma page_file_not_ancestor:
  "cu_slash \<notin> set (js_string (qid q)) \<Longrightarrow> page_file (root @ [x]) q \<notin> set (ancestors (root @ [x]))"
  using length_ancestor [of "page_file (root @ [x]) q" "root @ [x]"] by (auto simp: page_file_plain)

lemma sitemap_not_ancestor: "root @ [sitemap_name] \<notin> set (ancestors (root @ [q_name]))"
  using ancestor_same_length [of "root @ [sitemap_name]" "root @ [q_name]"]
    length_ancestor [of "root @ [sitemap_name]" "root @ [q_name]"] by auto

lemma root_ancestor: "root \<in> set (ancestors (root @ [x]))"
  using self_ancestor [of root] ancestors_append_one [of root x] by blast

lemma path_ok_page_file:
  "path_ok root \<Longrightarrow> cu_slash \<notin> set (js_string (qid q)) \<Longrightarrow> 0 \<notin> set (js_string (qid q)) \<Longrightarrow>
   path_ok (page_file (root @ [q_name]) q)"
  by (simp add: page_file_plain path_ok_def q_name_def)

lemma pages_writable:
  assumes "\<forall>q\<in>set qs. renderable q \<and> well_formed_utf16 (js_string (qid q)) \<and>
             cu_slash \<notin> set (js_string (qid q)) \<and> 0 \<notin> set (js_string (qid q))"
    and "\<forall>q\<in>set qs. page_file (root @ [q_name]) q \<notin> dirs w" and "path_ok root"
  shows "\<forall>q\<in>set qs. (\<exists>h. page_html q = Inr h) \<and> path_ok (page_file (root @ [q_name]) q) \<and>
           page_file (root @ [q_name]) q \<noteq> [] \<and>
           butlast (page_file (root @ [q_name]) q) \<in> dirs w \<union> set (ancestors root) \<union> set (ancestors (root @ [q_name])) \<and>
           page_file (root @ [q_name]) q \<notin> dirs w \<union> set (ancestors root) \<union> set (ancestors (root @ [q_name]))"
proof
  fix q
  let ?qd = "root @ [q_name]"
  assume q: "q \<in> set qs"
  with assms(1) have r: "renderable q" and wf: "well_formed_utf16 (js_string (qid q))"
    and ns: "cu_slash \<notin> set (js_string (qid q))" and nn: "0 \<notin> set (js_string (qid q))" by auto
  have "\<exists>h. page_html q = Inr h" using r wf by (rule page_html_wf)
  moreover have "path_ok (page_file ?qd q)" using assms(3) ns nn by (rule path_ok_page_file)
  moreover have "page_file ?qd q = ?qd @ [js_string (qid q) @ js_lit ''.html'']"
    using ns by (rule page_file_plain)
  moreover have "page_file ?qd q \<notin> set (ancestors ?qd)"
    using ns by (rule page_file_not_ancestor)
  ultimately show "(\<exists>h. page_html q = Inr h) \<and> path_ok (page_file ?qd q) \<and> page_file ?qd q \<noteq> [] \<and>
        butlast (page_file ?qd q) \<in> dirs w \<union> set (ancestors root) \<union> set (ancestors ?qd) \<and>
        page_file ?qd q \<notin> dirs w \<union> set (ancestors root) \<union> set (ancestors ?qd)"
    using assms(2) q self_ancestor [of ?qd] length_ancestor [of "page_file ?qd q" root]
    by (auto simp: butlast_append)
qed

lemma run_loop:
  assumes blocks: "\<forall>a\<in>set (ancestors (root @ [q_name])). files w a = None"
    and input: "files w (input_path root) = Some txt" and parsed: "parse txt = Some (JArr raw)"
  shows "run parse root w =
    (case write_pages (root @ [q_name]) (normalize raw)
            (w\<lparr>dirs := dirs w \<union> set (ancestors root) \<union> set (ancestors (root @ [q_name]))\<rparr>) of
       (Inl e, w3) \<Rightarrow> (Inl e, w3)
     | (Inr _, w3) \<Rightarrow>
         (case write_file (root @ [sitemap_name]) (sitemap_xml (normalize raw)) w3 of
            Inl e \<Rightarrow> (Inl e, w3)
          | Inr w4 \<Rightarrow> (Inr (), w4\<lparr>stdout := stdout w4 @ [summary_line (length (normalize raw)) root]\<rparr>)))"
proof -
  let ?w1 = "w\<lparr>dirs := dirs w \<union> set (ancestors root)\<rparr>"
  have e1: "ensure_dir root w = Inr ?w1" using blocks by (rule ensure_dir_root_ok)
  have "files ?w1 (input_path root) = Some txt" using input by simp
  then have l: "load_json parse root ?w1 = Inr raw"
    using parsed by (simp add: load_json_present)
  have e2: "ensure_dir (root @ [q_name]) ?w1 =
      Inr (w\<lparr>dirs := dirs w \<union> set (ancestors root) \<union> set (ancestors (root @ [q_name]))\<rparr>)"
    using blocks by (subst ensure_dir_ok) simp_all
  show ?thesis unfolding run_def path_join_names Let_def using e1 l e2 by simp
qed

text \<open>
  The run reads the parser only on the text of \<open>questions.json\<close>: two
  parsers that agree there give the same run.
\<close>

lemma run_parse_congr:
  assumes "files w (input_path root) = Some txt" and "parse txt = parse' txt"
  shows "run parse root w = run parse' root w"
proof (cases "ensure_dir root w")
  case (Inr w1)
  then have "files w1 = files w" by (auto dest: ensure_dir_frame)
  then have "load_json parse root w1 = load_json parse' root w1"
    using assms by (simp add: load_json_def)
  with Inr show ?thesis by (simp add: run_def)
qed (simp add: run_def)

lemma run_parse_none:
  assumes "\<forall>a\<in>set (ancestors root). files w a = None"
    and "files w (input_path root) = Some txt" and "parse txt = None"
  shows "run parse root w = (Inl ParseError, w\<lparr>dirs := dirs w \<union> set (ancestors root)\<rparr>)"
  using assms by (simp add: run_def ensure_dir_ok load_json_def)

subsection \<open>Properties of the run\<close>

text \<open>
  C5: when \<open>questions.json\<close> is missing the run fails with the missing-file
  error, after creating only the output root: no file is written and nothing
  is printed.
\<close>

theorem run_missing_input:
  assumes "\<forall>a\<in>set (ancestors root). files w a = None"
    and "files w (input_path root) = None" and "input_path root \<notin> dirs w"
  shows "run parse root w = (Inl ConfigError, w\<lparr>dirs := dirs w \<union> set (ancestors root)\<rparr>)"
  using assms input_path_not_ancestor [of root]
  by (simp add: run_def ensure_dir_ok load_json_def)

text \<open>
  C6: when the input is not valid JSON, or not an array, the run fails with
  \<open>ParseError\<close> or \<open>SchemaError\<close>, again leaving every file as it was and
  printing nothing.
\<close>

theorem run_bad_input:
  assumes "\<forall>a\<in>set (ancestors root). files w a = None"
    and "files w (input_path root) = Some txt" and "\<forall>arr. parse txt \<noteq> Some (JArr arr)"
  shows "fst (run parse root w) \<in> {Inl ParseError, Inl SchemaError} \<and>
         snd (run parse root w) = w\<lparr>dirs := dirs w \<union> set (ancestors root)\<rparr>"
proof -
  let ?w1 = "w\<lparr>dirs := dirs w \<union> set (ancestors root)\<rparr>"
  have e: "ensure_dir root w = Inr ?w1" using assms(1) by (rule ensure_dir_ok)
  have "files ?w1 (input_path root) = Some txt" using assms(2) by simp
  then have l: "load_json parse root ?w1 =
     (case parse txt of None \<Rightarrow> Inl ParseError | Some (JArr arr) \<Rightarrow> Inr arr | Some _ \<Rightarrow> Inl SchemaError)"
    by (rule load_json_present)
  have "load_json parse root ?w1 \<in> {Inl ParseError, Inl SchemaError}"
    using assms(3) unfolding l by (auto split: option.split jsval.split)
  then show ?thesis using e by (auto simp: run_def)
qed

text \<open>
  C1: a run on a parsed array succeeds when every surviving record can be
  rendered (title, body and id convert to strings, the id is well-formed
  UTF-16) and its id has no \<open>/\<close> and no null character, in a working
  directory whose path has no null character: it writes each record's page at
  \<open>q/<id>.html\<close> (a later record with the same file name overwriting an
  earlier one), then \<open>sitemap.xml\<close>, changes no other file and prints the
  summary line with the number of records.
\<close>

theorem run_success:
  assumes blocks: "\<forall>a\<in>set (ancestors (root @ [q_name])). files w a = None"
    and input: "files w (input_path root) = Some txt" and parsed: "parse txt = Some (JArr raw)"
    and ids: "\<forall>q\<in>set (normalize raw). renderable q \<and> well_formed_utf16 (js_string (qid q)) \<and>
                cu_slash \<notin> set (js_string (qid q)) \<and> 0 \<notin> set (js_string (qid q))"
    and free: "\<forall>q\<in>set (normalize raw). page_file (root @ [q_name]) q \<notin> dirs w"
    and sm_free: "root @ [sitemap_name] \<notin> dirs w" and rok: "path_ok root"
  shows "fst (run parse root w) = Inr () \<and>
         files (snd (run parse root w)) =
           (files w ++ page_map (root @ [q_name]) (normalize raw))
             (root @ [sitemap_name] \<mapsto> sitemap_xml (normalize raw)) \<and>
         stdout (snd (run parse root w)) = stdout w @ [summary_line (length (normalize raw)) root]"
proof -
  let ?qs = "normalize raw" and ?qd = "root @ [q_name]"
  let ?w2 = "w\<lparr>dirs := dirs w \<union> set (ancestors root) \<union> set (ancestors ?qd)\<rparr>"
  let ?w3 = "?w2\<lparr>files := files ?w2 ++ page_map ?qd ?qs\<rparr>"
  have wp: "write_pages ?qd ?qs ?w2 = (Inr (), ?w3)"
    using pages_writable [OF ids free rok] by (intro write_pages_ok) simp
  have "write_file (root @ [sitemap_name]) (sitemap_xml ?qs) ?w3 =
      Inr (?w3\<lparr>files := (files ?w3)(root @ [sitemap_name] \<mapsto> sitemap_xml ?qs)\<rparr>)"
    using sm_free sitemap_not_ancestor [of root] root_ancestor [of root q_name]
      length_ancestor [of "root @ [sitemap_name]" root] rok
    by (intro write_file_ok) (auto simp: path_ok_def sitemap_name_def)
  with wp show ?thesis using run_loop [of root w "txt" parse raw, OF blocks input parsed] by simp
qed

lemma count_lt_sitemap_entry:
  "count_list (sitemap_entry (sitemap_url q)) cu_lt = 4 + count_list (js_string (qid q)) cu_lt"
  by (simp add: sitemap_entry_def sitemap_url_def)

lemma count_amp_sitemap_entry:
  "count_list (sitemap_entry (sitemap_url q)) cu_amp = count_list (js_string (qid q)) cu_amp"
  by (simp add: sitemap_entry_def sitemap_url_def)

lemma path_join_dotdot:
  "split_path [] (concat (replicate k (js_lit ''../'')) @ t) = replicate k (js_lit ''..'') @ split_path [] t"
  by (induction k) simp_all

lemma foldl_dotdot:
  "foldl path_seg_step acc (replicate k (js_lit ''..'')) = take (length acc - k) acc"
proof (induction k arbitrary: acc)
  case (Suc k)
  then show ?case by (simp add: path_seg_step_def butlast_conv_take min_def)
qed simp

lemma sum_list_const_4:
  "(\<forall>x\<in>set xs. f x = (4::nat)) \<Longrightarrow> (\<Sum>x\<leftarrow>xs. f x) = 4 * length xs"
  by (induction xs) auto

lemma page_file_inj:
  "cu_slash \<notin> set (js_string (qid q)) \<Longrightarrow> cu_slash \<notin> set (js_string (qid q')) \<Longrightarrow>
   page_file qdir q = page_file qdir q' \<Longrightarrow> js_string (qid q) = js_string (qid q')"
  by (simp add: page_file_plain)

lemma dom_page_map: "dom (page_map qdir qs) = set (map (page_file qdir) qs)"
  by (auto simp: page_map_def dom_map_of_conv_image_fst image_image)

text \<open>
  C15: the sitemap has one \<open><url><loc>...</loc></url>\<close> entry per record:
  when no id contains \<open><\<close>, it holds exactly \<open>3 + 4 n\<close> opening angle
  brackets for \<open>n\<close> records (two in the header, one in the closing tag,
  four per entry).
\<close>

theorem sitemap_entry_count:
  "\<forall>q\<in>set qs. cu_lt \<notin> set (js_string (qid q)) \<Longrightarrow>
   count_list (sitemap_xml qs) cu_lt = 3 + 4 * length qs"
proof -
  assume ids: "\<forall>q\<in>set qs. cu_lt \<notin> set (js_string (qid q))"
  have "count_list (join [cu_newline] (map sitemap_entry (map sitemap_url qs))) cu_lt =
        (\<Sum>q\<leftarrow>qs. count_list (sitemap_entry (sitemap_url q)) cu_lt)"
    by (simp add: count_list_join comp_def)
  also have "\<dots> = 4 * length qs"
    using ids by (intro sum_list_const_4) (simp add: count_lt_sitemap_entry count_list_0_iff)
  finally show ?thesis by (simp add: sitemap_xml_def)
qed

text \<open>
  C16: records whose ids have distinct strings without \<open>/\<close> give as many
  page files as there are records.
\<close>

theorem page_files_count:
  assumes "\<forall>q\<in>set qs. cu_slash \<notin> set (js_string (qid q))"
    and "distinct (map (\<lambda>q. js_string (qid q)) qs)"
  shows "card (dom (page_map qdir qs)) = length qs"
proof -
  have names: "inj_on (\<lambda>q. js_string (qid q)) (set qs)" and d: "distinct qs"
    using assms(2) by (simp_all add: distinct_map)
  have "inj_on (page_file qdir) (set qs)"
  proof (rule inj_onI)
    fix x y
    assume x: "x \<in> set qs" and y: "y \<in> set qs" and eq: "page_file qdir x = page_file qdir y"
    then have "js_string (qid x) = js_string (qid y)"
      using assms(1) page_file_inj by blast
    with names x y show "x = y" by (auto dest: inj_onD)
  qed
  with d have "distinct (map (page_file qdir) qs)" by (simp add: distinct_map)
  then show ?thesis by (metis dom_page_map distinct_card length_map)
qed

text \<open>
  C27: when the page of a surviving record cannot be rendered (a title,
  body or id that \<open>String()\<close> rejects gives \<open>TypeError\<close>, an ill-formed id
  \<open>URIError\<close>), \<open>pageHtml\<close> throws in the middle of the write loop: the run
  fails with that error, the pages of the records before it stay written,
  no later page and no sitemap is written, and nothing is printed.
\<close>

theorem run_page_error_partial:
  assumes blocks: "\<forall>a\<in>set (ancestors (root @ [q_name])). files w a = None"
    and input: "files w (input_path root) = Some txt" and parsed: "parse txt = Some (JArr raw)"
    and split: "normalize raw = pre @ q # post"
    and ids: "\<forall>p\<in>set pre. renderable p \<and> well_formed_utf16 (js_string (qid p)) \<and>
                cu_slash \<notin> set (js_string (qid p)) \<and> 0 \<notin> set (js_string (qid p))"
    and free: "\<forall>p\<in>set pre. page_file (root @ [q_name]) p \<notin> dirs w" and rok: "path_ok root"
    and bad: "page_html q = Inl e"
  shows "run parse root w =
           (Inl e, w\<lparr>dirs := dirs w \<union> set (ancestors root) \<union> set (ancestors (root @ [q_name])),
                      files := files w ++ page_map (root @ [q_name]) pre\<rparr>)"
proof -
  let ?w2 = "w\<lparr>dirs := dirs w \<union> set (ancestors root) \<union> set (ancestors (root @ [q_name]))\<rparr>"
  have "write_pages (root @ [q_name]) (pre @ q # post) ?w2 =
      write_pages (root @ [q_name]) (q # post) (?w2\<lparr>files := files ?w2 ++ page_map (root @ [q_name]) pre\<rparr>)"
    using pages_writable [OF ids free rok] by (intro write_pages_append) simp
  with bad show ?thesis using run_loop [of root w "txt" parse raw, OF blocks input parsed] split by simp
qed

text \<open>
  C34 (finding): an id holding the code unit U+0000 but no \<open>/\<close> renders,
  but \<open>writeFileSync\<close> rejects the path of its page with a \<open>TypeError\<close>: the
  run fails there, with the pages of the records before it written and no
  sitemap, although the id passed every check of \<open>normalize\<close>.
\<close>

theorem run_nul_id_error:
  assumes blocks: "\<forall>a\<in>set (ancestors (root @ [q_name])). files w a = None"
    and input: "files w (input_path root) = Some txt" and parsed: "parse txt = Some (JArr raw)"
    and split: "normalize raw = pre @ q # post"
    and ids: "\<forall>p\<in>set pre. renderable p \<and> well_formed_utf16 (js_string (qid p)) \<and>
                cu_slash \<notin> set (js_string (qid p)) \<and> 0 \<notin> set (js_string (qid p))"
    and free: "\<forall>p\<in>set pre. page_file (root @ [q_name]) p \<notin> dirs w" and rok: "path_ok root"
    and r: "renderable q" and wf: "well_formed_utf16 (js_string (qid q))"
    and ns: "cu_slash \<notin> set (js_string (qid q))" and nul: "0 \<in> set (js_string (qid q))"
  shows "run parse root w =
           (Inl TypeError, w\<lparr>dirs := dirs w \<union> set (ancestors root) \<union> set (ancestors (root @ [q_name])),
                             files := files w ++ page_map (root @ [q_name]) pre\<rparr>)"
proof -
  let ?w2 = "w\<lparr>dirs := dirs w \<union> set (ancestors root) \<union> set (ancestors (root @ [q_name]))\<rparr>"
  obtain h where h: "page_html q = Inr h" using page_html_wf [OF r wf] by blast
  have "\<not> path_ok (page_file (root @ [q_name]) q)"
    using nul by (simp add: page_file_plain [OF ns] path_ok_def)
  then have wr: "write_file (page_file (root @ [q_name]) q) h w' = Inl TypeError" for w'
    by (simp add: write_file_def)
  have "write_pages (root @ [q_name]) (pre @ q # post) ?w2 =
      write_pages (root @ [q_name]) (q # post) (?w2\<lparr>files := files ?w2 ++ page_map (root @ [q_name]) pre\<rparr>)"
    using pages_writable [OF ids free rok] by (intro write_pages_append) simp
  with h wr show ?thesis using run_loop [of root w "txt" parse raw, OF blocks input parsed] split by simp
qed

theorem run_nul_id_error_witness:
  "run (\<lambda>_. Some (JArr [example_record,
          JObj [(js_lit ''id'', JStr [0x61, 0]), (js_lit ''title'', JStr (js_lit ''T''))]])) [js_lit ''srv'']
       \<lparr>dirs = {}, files = [[js_lit ''srv'', input_name] \<mapsto> js_lit ''[...]''], stdout = []\<rparr> =
     (Inl TypeError, \<lparr>dirs = set (ancestors [js_lit ''srv'']) \<union> set (ancestors [js_lit ''srv'', q_name]),
        files = [[js_lit ''srv'', input_name] \<mapsto> js_lit ''[...]''] ++ page_map [js_lit ''srv'', q_name] [example_question],
        stdout = []\<rparr>)"
proof -
  let ?w = "\<lparr>dirs = {}, files = [[js_lit ''srv'', input_name] \<mapsto> js_lit ''[...]''], stdout = []\<rparr>"
  let ?raw = "[example_record, JObj [(js_lit ''id'', JStr [0x61, 0]), (js_lit ''title'', JStr (js_lit ''T''))]]"
  let ?q = "\<lparr>qid = JStr [0x61, 0], qtitle = JStr (js_lit ''T''), qbody = JStr []\<rparr>"
  have n: "normalize ?raw = [example_question] @ ?q # []"
    by (simp add: example_record_def example_question_def normalize_Cons
        normalize_item_def get_prop_def valid_question_def js_or_def)
  have h1: "\<forall>a\<in>set (ancestors ([js_lit ''srv''] @ [q_name])). files ?w a = None"
    by (simp add: ancestors_def input_name_def q_name_def)
  have h2: "files ?w (input_path [js_lit ''srv'']) = Some (js_lit ''[...]'')"
    by (simp add: input_path_def)
  have h3: "(\<lambda>_. Some (JArr ?raw)) (js_lit ''[...]'') = Some (JArr ?raw)"
    by simp
  have h4: "\<forall>p\<in>set [example_question]. renderable p \<and> well_formed_utf16 (js_string (qid p)) \<and>
              cu_slash \<notin> set (js_string (qid p)) \<and> 0 \<notin> set (js_string (qid p))"
    by (simp add: example_question_def renderable_def is_high_surrogate_def is_low_surrogate_def)
  have h5: "\<forall>p\<in>set [example_question]. page_file ([js_lit ''srv''] @ [q_name]) p \<notin> dirs ?w"
    by simp
  have h6: "path_ok [js_lit ''srv'']" by (simp add: path_ok_def)
  have h7: "renderable ?q" by (simp add: renderable_def)
  have h8: "well_formed_utf16 (js_string (qid ?q))"
    by (simp add: is_high_surrogate_def is_low_surrogate_def)
  have h9: "cu_slash \<notin> set (js_string (qid ?q))" and h10: "0 \<in> set (js_string (qid ?q))"
    by simp_all
  show ?thesis using run_nul_id_error [OF h1 h2 h3 n h4 h5 h6 h7 h8 h9 h10] by simp
qed

text \<open>
  C28: a page is always written to a path whose last segment ends in
  \<open>.html\<close>, whatever the id; in particular a page never overwrites
  \<open>sitemap.xml\<close> or \<open>questions.json\<close> of any root.
\<close>

theorem page_file_html:
  "(\<exists>pre n. page_file qdir q = pre @ [n @ js_lit ''.html'']) \<and>
   page_file qdir q \<noteq> path_join root sitemap_name \<and> page_file qdir q \<noteq> input_path root"
proof -
  obtain pre n where p: "page_file qdir q = pre @ [n @ js_lit ''.html'']"
    using page_file_shape [of qdir q] by blast
  have "page_file qdir q \<noteq> root @ [sitemap_name]"
    using html_name_not_sitemap [of n] by (simp add: p)
  then show ?thesis using p page_file_not_input [of qdir q root] by simp
qed

text \<open>
  C31: whatever the input and whatever the outcome, a run leaves
  \<open>questions.json\<close> as it was: every write goes to a page file or to
  \<open>sitemap.xml\<close>.
\<close>

theorem run_keeps_input:
  "files (snd (run parse root w)) (input_path root) = files w (input_path root)"
proof -
  have sm: "input_path root \<noteq> path_join root sitemap_name"
    by (simp add: input_path_def)
  have pg: "\<forall>q\<in>set qs. input_path root \<noteq> page_file qdir q" for qs qdir
    using page_file_not_input by metis
  have wp: "files w' (input_path root) = files w0 (input_path root)"
    if "write_pages qdir qs w0 = (r, w')" for qdir qs w0 r w'
    using write_pages_frame [OF pg, of qdir qs w0] that by simp
  show ?thesis
    using sm
    by (auto simp: run_def Let_def split: sum.splits prod.splits
        dest!: ensure_dir_frame write_file_frame wp)
qed

subsection \<open>Witnesses\<close>

text \<open>A server directory \<open>/srv\<close> holding only \<open>questions.json\<close>.\<close>

theorem run_missing_input_witness:
  "run (\<lambda>_. None) [js_lit ''srv''] \<lparr>dirs = {}, files = Map.empty, stdout = []\<rparr> =
     (Inl ConfigError, \<lparr>dirs = set (ancestors [js_lit ''srv'']), files = Map.empty, stdout = []\<rparr>)"
proof -
  have h1: "\<forall>a\<in>set (ancestors [js_lit ''srv'']). files \<lparr>dirs = {}, files = Map.empty, stdout = []\<rparr> a = None"
    by simp
  have h2: "files \<lparr>dirs = {}, files = Map.empty, stdout = []\<rparr> (input_path [js_lit ''srv'']) = None"
    by simp
  have h3: "input_path [js_lit ''srv''] \<notin> dirs \<lparr>dirs = {}, files = Map.empty, stdout = []\<rparr>"
    by simp
  show ?thesis using run_missing_input [OF h1 h2 h3, of "\<lambda>_. None"] by simp
qed

theorem run_bad_input_witness:
  "fst (run (\<lambda>_. Some (JObj [])) [js_lit ''srv'']
          \<lparr>dirs = {}, files = [[js_lit ''srv'', input_name] \<mapsto> js_lit ''{}''], stdout = []\<rparr>)
     \<in> {Inl ParseError, Inl SchemaError}"
proof -
  let ?w = "\<lparr>dirs = {}, files = [[js_lit ''srv'', input_name] \<mapsto> js_lit ''{}''], stdout = []\<rparr>"
  have h1: "\<forall>a\<in>set (ancestors [js_lit ''srv'']). files ?w a = None"
    by (simp add: ancestors_def input_name_def)
  have h2: "files ?w (input_path [js_lit ''srv'']) = Some (js_lit ''{}'')"
    by (simp add: input_path_def)
  have h3: "\<forall>arr. (\<lambda>_. Some (JObj [])) (js_lit ''{}'') \<noteq> Some (JArr arr)" by simp
  show ?thesis using run_bad_input [OF h1 h2 h3] by simp
qed

lemma normalize_example: "normalize [example_record] = [example_question]"
  by (simp add: example_record_def example_question_def normalize_Cons normalize_item_def
      get_prop_def valid_question_def js_or_def)

theorem run_success_witness:
  "fst (run (\<lambda>_. Some (JArr [example_record])) [js_lit ''srv'']
          \<lparr>dirs = {}, files = [[js_lit ''srv'', input_name] \<mapsto> js_lit ''[...]''], stdout = []\<rparr>) = Inr () \<and>
   files (snd (run (\<lambda>_. Some (JArr [example_record])) [js_lit ''srv'']
          \<lparr>dirs = {}, files = [[js_lit ''srv'', input_name] \<mapsto> js_lit ''[...]''], stdout = []\<rparr>))
     [js_lit ''srv'', sitemap_name] = Some (sitemap_xml [example_question])"
proof -
  let ?w = "\<lparr>dirs = {}, files = [[js_lit ''srv'', input_name] \<mapsto> js_lit ''[...]''], stdout = []\<rparr>"
  have h1: "\<forall>a\<in>set (ancestors ([js_lit ''srv''] @ [q_name])). files ?w a = None"
    by (simp add: ancestors_def input_name_def q_name_def)
  have h2: "files ?w (input_path [js_lit ''srv'']) = Some (js_lit ''[...]'')"
    by (simp add: input_path_def)
  have h3: "(\<lambda>_. Some (JArr [example_record])) (js_lit ''[...]'') = Some (JArr [example_record])"
    by simp
  have h4: "\<forall>q\<in>set (normalize [example_record]). renderable q \<and> well_formed_utf16 (js_string (qid q)) \<and>
              cu_slash \<notin> set (js_string (qid q)) \<and> 0 \<notin> set (js_string (qid q))"
    by (simp add: normalize_example example_question_def renderable_def is_high_surrogate_def
        is_low_surrogate_def)
  have h5: "\<forall>q\<in>set (normalize [example_record]). page_file ([js_lit ''srv''] @ [q_name]) q \<notin> dirs ?w"
    by simp
  have h6: "[js_lit ''srv''] @ [sitemap_name] \<notin> dirs ?w" by simp
  have h7: "path_ok [js_lit ''srv'']" by (simp add: path_ok_def)
  show ?thesis using run_success [OF h1 h2 h3 h4 h5 h6 h7] by (simp add: normalize_example)
qed

theorem sitemap_entry_count_witness:
  "cu_lt \<notin> set (js_string (qid example_question)) \<and>
   count_list (sitemap_xml [example_question]) cu_lt = 7"
proof -
  have h: "\<forall>q\<in>set [example_question]. cu_lt \<notin> set (js_string (qid q))"
    by (simp add: example_question_def)
  then show ?thesis using sitemap_entry_count [OF h] by simp
qed

theorem page_files_count_witness:
  "card (dom (page_map [js_lit ''q''] [example_question])) = 1"
proof -
  have h1: "\<forall>q\<in>set [example_question]. cu_slash \<notin> set (js_string (qid q))"
    by (simp add: example_question_def)
  have h2: "distinct (map (\<lambda>q. js_string (qid q)) [example_question])" by simp
  show ?thesis using page_files_count [OF h1 h2] by simp
qed

definition example_bad_record :: jsval where
  "example_bad_record = JObj [(js_lit ''id'', JStr [0xD800]), (js_lit ''title'', JStr (js_lit ''T''))]"

theorem run_page_error_partial_witness:
  "run (\<lambda>_. Some (JArr [example_record, example_bad_record])) [js_lit ''srv'']
       \<lparr>dirs = {}, files = [[js_lit ''srv'', input_name] \<mapsto> js_lit ''[...]''], stdout = []\<rparr> =
     (Inl UriError, \<lparr>dirs = set (ancestors [js_lit ''srv'']) \<union> set (ancestors [js_lit ''srv'', q_name]),
        files = [[js_lit ''srv'', input_name] \<mapsto> js_lit ''[...]''] ++ page_map [js_lit ''srv'', q_name] [example_question],
        stdout = []\<rparr>)"
proof -
  let ?w = "\<lparr>dirs = {}, files = [[js_lit ''srv'', input_name] \<mapsto> js_lit ''[...]''], stdout = []\<rparr>"
  let ?q = "\<lparr>qid = JStr [0xD800], qtitle = JStr (js_lit ''T''), qbody = JStr []\<rparr>"
  have n: "normalize [example_record, example_bad_record] = [example_question] @ ?q # []"
    by (simp add: example_record_def example_question_def example_bad_record_def normalize_Cons
        normalize_item_def get_prop_def valid_question_def js_or_def)
  have h1: "\<forall>a\<in>set (ancestors ([js_lit ''srv''] @ [q_name])). files ?w a = None"
    by (simp add: ancestors_def input_name_def q_name_def)
  have h2: "files ?w (input_path [js_lit ''srv'']) = Some (js_lit ''[...]'')"
    by (simp add: input_path_def)
  have h3: "(\<lambda>_. Some (JArr [example_record, example_bad_record])) (js_lit ''[...]'') =
      Some (JArr [example_record, example_bad_record])"
    by simp
  have h4: "\<forall>p\<in>set [example_question]. renderable p \<and> well_formed_utf16 (js_string (qid p)) \<and>
              cu_slash \<notin> set (js_string (qid p)) \<and> 0 \<notin> set (js_string (qid p))"
    by (simp add: example_question_def renderable_def is_high_surrogate_def is_low_surrogate_def)
  have h5: "\<forall>p\<in>set [example_question]. page_file ([js_lit ''srv''] @ [q_name]) p \<notin> dirs ?w"
    by simp
  have h6: "path_ok [js_lit ''srv'']" by (simp add: path_ok_def)
  have h7: "page_html ?q = Inl UriError"
    by (simp add: page_html_def uri_unreserved_def is_high_surrogate_def is_low_surrogate_def)
  show ?thesis using run_page_error_partial [OF h1 h2 h3 n h4 h5 h6 h7] by simp
qed

text \<open>
  C29 (finding): the id is joined to the page directory unchecked, and
  \<open>path.join\<close> resolves \<open>..\<close>: an id made of \<open>k\<close> segments \<open>../\<close> and a
  name without \<open>/\<close> writes its page \<open>k\<close> directories above the page
  directory, and at the file-system root once \<open>k\<close> reaches its depth, so a
  record can write outside the output root.
\<close>

theorem page_file_traversal:
  "cu_slash \<notin> set s \<Longrightarrow> js_string (qid q) = concat (replicate k (js_lit ''../'')) @ s \<Longrightarrow>
   page_file qdir q = take (length qdir - k) qdir @ [s @ js_lit ''.html'']"
proof -
  assume ns: "cu_slash \<notin> set s" and id: "js_string (qid q) = concat (replicate k (js_lit ''../'')) @ s"
  have "cu_slash \<notin> set (s @ js_lit ''.html'')" using ns by simp
  then have "split_path [] (js_string (qid q) @ js_lit ''.html'') = replicate k (js_lit ''..'') @ [s @ js_lit ''.html'']"
    using id path_join_dotdot [of k "s @ js_lit ''.html''"] by (simp add: split_path_no_slash)
  moreover have "path_seg_step acc (s @ js_lit ''.html'') = acc @ [s @ js_lit ''.html'']" for acc
    by (auto simp: path_seg_step_def)
  ultimately show ?thesis
    by (simp only: page_file_def path_join_def foldl_append foldl_dotdot foldl_Cons foldl_Nil)
qed

theorem page_file_traversal_witness:
  "page_file [js_lit ''srv'', q_name]
     \<lparr>qid = JStr (js_lit ''../../x''), qtitle = JStr (js_lit ''T''), qbody = JStr []\<rparr> = [js_lit ''x.html'']"
proof -
  have "js_string (qid \<lparr>qid = JStr (js_lit ''../../x''), qtitle = JStr (js_lit ''T''), qbody = JStr []\<rparr>) =
        concat (replicate 2 (js_lit ''../'')) @ js_lit ''x''"
    by (simp add: numeral_2_eq_2)
  from page_file_traversal [OF _ this, of "[js_lit ''srv'', q_name]"]
  show ?thesis by simp
qed

text \<open>
  C30 (finding): the sitemap writes the id into \<open><loc>\<close> without XML
  escaping: every \<open><\<close> and \<open>&\<close> of an id appears in the document as it is,
  on top of the three \<open><\<close> of the frame and the four of each entry, so an id
  with \<open>&\<close> or \<open><\<close> makes the sitemap ill-formed XML.
\<close>

theorem sitemap_not_xml_escaped:
  "count_list (sitemap_xml qs) cu_lt = 3 + 4 * length qs + (\<Sum>q\<leftarrow>qs. count_list (js_string (qid q)) cu_lt) \<and>
   count_list (sitemap_xml qs) cu_amp = (\<Sum>q\<leftarrow>qs. count_list (js_string (qid q)) cu_amp)"
  by (simp add: sitemap_xml_def count_list_join comp_def count_lt_sitemap_entry
      count_amp_sitemap_entry sum_list_addf sum_list_triv)



text \<open>
  C20 (finding): the sitemap writes the id as it is, while the canonical URL
  of the page percent-encodes it: the two URLs agree exactly when every code
  unit of the id is unreserved, so any id with a space, a non-ASCII
  character or a reserved character gets two different URLs.
\<close>

theorem sitemap_url_not_encoded:
  "encode_uri_component (js_string (qid q)) = Inr enc \<Longrightarrow>
   sitemap_url q = canonical_url enc \<longleftrightarrow> (\<forall>c\<in>set (js_string (qid q)). uri_unreserved c)"
proof -
  assume e: "encode_uri_component (js_string (qid q)) = Inr enc"
  have "sitemap_url q = canonical_url enc \<longleftrightarrow> enc = js_string (qid q)"
    by (auto simp: sitemap_url_def canonical_url_def)
  then show ?thesis using encode_uri_component_same [OF e] by simp
qed

theorem sitemap_url_not_encoded_witness:
  "encode_uri_component (js_lit ''a b'') = Inr (js_lit ''a%20b'') \<and>
   sitemap_url \<lparr>qid = JStr (js_lit ''a b''), qtitle = JStr (js_lit ''T''), qbody = JStr []\<rparr> \<noteq>
     canonical_url (js_lit ''a%20b'')"
proof -
  have e: "encode_uri_component (js_string (qid \<lparr>qid = JStr (js_lit ''a b''), qtitle = JStr (js_lit ''T''), qbody = JStr []\<rparr>)) =
      Inr (js_lit ''a%20b'')"
    by (simp add: uri_unreserved_def is_low_surrogate_def is_high_surrogate_def enc_cp_def
        utf8_bytes_def pct_byte_def hex_digit_def)
  have "\<not> uri_unreserved 32" by (simp add: uri_unreserved_def)
  then show ?thesis using e sitemap_url_not_encoded [OF e] by auto
qed

end
