(* ===== verification/UriDecode.thy ===== *)
theory UriDecode
  imports UriEncode
begin

text \<open>
  The inverse the canonical URL is read with: \<open>decodeURIComponent\<close>
  (ECMAScript Decode with an empty reserved set). The script never calls it;
  it is the reference against which \<open>encodeURIComponent\<close> is checked. A
  \<open>%XX\<close> escape gives a byte; a byte below \<open>0x80\<close> is one code unit; a
  lead byte \<open>C0..DF\<close>, \<open>E0..EF\<close> or \<open>F0..F7\<close> must be followed by one, two
  or three escaped continuation bytes \<open>80..BF\<close>, and the decoded code point
  must be in range, not a surrogate and not an overlong form; it is written
  as one code unit or as a surrogate pair. Anything else is a \<open>URIError\<close>.
  The lemmas show that decoding inverts the encoding on every string the
  encoding accepts, so the encoding is injective, and that appending
  unreserved text commutes with the encoding.
\<close>

fun pct_byte_at :: "jstr \<Rightarrow> (nat \<times> jstr) option" where
  "pct_byte_at (p # h1 # h2 # rest) =
     (if p = cu_percent then
        (case (hex_val h1, hex_val h2) of (Some a, Some b) \<Rightarrow> Some (16 * a + b, rest) | _ \<Rightarrow> None)
      else None)"
| "pct_byte_at _ = None"

fun cont_bytes :: "nat \<Rightarrow> jstr \<Rightarrow> (nat list \<times> jstr) option" where
  "cont_bytes 0 s = Some ([], s)"
| "cont_bytes (Suc k) s =
     (case pct_byte_at s of
        Some (b, rest) \<Rightarrow>
          (if 0x80 \<le> b \<and> b \<le> 0xBF then
             (case cont_bytes k rest of Some (bs, rest') \<Rightarrow> Some (b # bs, rest') | None \<Rightarrow> None)
           else None)
      | None \<Rightarrow> None)"

definition utf8_len :: "nat \<Rightarrow> nat" where
  "utf8_len b =
     (if 0xC0 \<le> b \<and> b \<le> 0xDF then 2 else if 0xE0 \<le> b \<and> b \<le> 0xEF then 3
      else if 0xF0 \<le> b \<and> b \<le> 0xF7 then 4 else 0)"

definition utf8_decode :: "nat \<Rightarrow> nat list \<Rightarrow> nat option" where
  "utf8_decode b cs =
     (case cs of
        [c1] \<Rightarrow> (let cp = (b - 0xC0) * 64 + (c1 - 0x80) in if 0x80 \<le> cp then Some cp else None)
      | [c1, c2] \<Rightarrow>
          (let cp = (b - 0xE0) * 4096 + (c1 - 0x80) * 64 + (c2 - 0x80)
           in if 0x800 \<le> cp \<and> \<not> (0xD800 \<le> cp \<and> cp \<le> 0xDFFF) then Some cp else None)
      | [c1, c2, c3] \<Rightarrow>
          (let cp = (b - 0xF0) * 262144 + (c1 - 0x80) * 4096 + (c2 - 0x80) * 64 + (c3 - 0x80)
           in if 0x10000 \<le> cp \<and> cp \<le> 0x10FFFF then Some cp else None)
      | _ \<Rightarrow> None)"

definition utf16_of :: "nat \<Rightarrow> jstr" where
  "utf16_of cp =
     (if cp < 0x10000 then [of_nat cp]
      else [of_nat (0xD800 + (cp - 0x10000) div 0x400), of_nat (0xDC00 + (cp - 0x10000) mod 0x400)])"

function decode_uri_component :: "jstr \<Rightarrow> error + jstr" where
  "decode_uri_component s =
     (case s of
        [] \<Rightarrow> Inr []
      | c # cs \<Rightarrow>
          (if c \<noteq> cu_percent then
             (case decode_uri_component cs of Inl e \<Rightarrow> Inl e | Inr r \<Rightarrow> Inr (c # r))
           else
             (case pct_byte_at s of
                None \<Rightarrow> Inl UriError
              | Some (b, rest) \<Rightarrow>
                  (if b < 0x80 then
                     (case decode_uri_component rest of Inl e \<Rightarrow> Inl e | Inr r \<Rightarrow> Inr (of_nat b # r))
                   else if utf8_len b = 0 then Inl UriError
                   else
                     (case cont_bytes (utf8_len b - 1) rest of
                        None \<Rightarrow> Inl UriError
                      | Some (conts, rest') \<Rightarrow>
                          (case utf8_decode b conts of
                             None \<Rightarrow> Inl UriError
                           | Some cp \<Rightarrow>
                               (case decode_uri_component rest' of
                                  Inl e \<Rightarrow> Inl e
                                | Inr r \<Rightarrow> Inr (utf16_of cp @ r))))))))"
  by pat_completeness auto
termination
proof (relation "measure length")
  have pb: "length rest < length s" if "pct_byte_at s = Some (b, rest)" for s b rest
    using that by (induction s rule: pct_byte_at.induct) (auto split: if_splits option.splits)
  have cb: "length rest \<le> length s" if "cont_bytes k s = Some (bs, rest)" for k s bs rest
    using that
    by (induction k arbitrary: s bs) (fastforce split: option.splits if_splits dest: pb)+
  show "wf (measure length)" by simp
  show "\<And>s c cs x. s = c # cs \<Longrightarrow> c \<noteq> cu_percent \<Longrightarrow> (cs, s) \<in> measure length"
    by simp
  show "\<And>s c cs x2 x xa y x2a xb ya xc xd.
       s = c # cs \<Longrightarrow> \<not> c \<noteq> cu_percent \<Longrightarrow> pct_byte_at s = Some x2 \<Longrightarrow>
       (x, xa) = x2 \<Longrightarrow> x < 128 \<Longrightarrow> (xa, s) \<in> measure length"
    using pb by fastforce
  show "\<And>s c cs x2 x xa x2a xb y x2b xc.
       s = c # cs \<Longrightarrow> \<not> c \<noteq> cu_percent \<Longrightarrow> pct_byte_at s = Some x2 \<Longrightarrow>
       (x, xa) = x2 \<Longrightarrow> \<not> x < 128 \<Longrightarrow> utf8_len x \<noteq> 0 \<Longrightarrow>
       cont_bytes (utf8_len x - 1) xa = Some x2a \<Longrightarrow> (xb, y) = x2a \<Longrightarrow>
       utf8_decode x xb = Some x2b \<Longrightarrow> (y, s) \<in> measure length"
    using pb cb by fastforce
qed

declare decode_uri_component.simps [simp del]

subsection \<open>Lemmas\<close>

lemma hex_val_hex_digit: "n < 16 \<Longrightarrow> hex_val (hex_digit n) = Some n"
proof -
  assume n: "n < 16"
  have u: "unat (hex_digit n) = (if n < 10 then 48 + n else 55 + n)"
    using n by (simp add: hex_digit_def unat_of_nat del: of_nat_add)
  then show ?thesis
    using n by (auto simp: hex_val_def word_le_nat_alt split: if_splits)
qed

lemma pct_byte_at_pct_byte: "b < 256 \<Longrightarrow> pct_byte_at (pct_byte b @ rest) = Some (b, rest)"
  by (simp add: pct_byte_def hex_val_hex_digit)

lemma decode_Nil: "decode_uri_component [] = Inr []"
  by (simp add: decode_uri_component.simps)

lemma decode_plain:
  "c \<noteq> cu_percent \<Longrightarrow> decode_uri_component (c # cs) =
     (case decode_uri_component cs of Inl e \<Rightarrow> Inl e | Inr r \<Rightarrow> Inr (c # r))"
  by (simp add: decode_uri_component.simps)

lemma decode_pct:
  "b < 256 \<Longrightarrow> decode_uri_component (pct_byte b @ rest) =
     (if b < 0x80 then
        (case decode_uri_component rest of Inl e \<Rightarrow> Inl e | Inr r \<Rightarrow> Inr (of_nat b # r))
      else if utf8_len b = 0 then Inl UriError
      else
        (case cont_bytes (utf8_len b - 1) rest of
           None \<Rightarrow> Inl UriError
         | Some (conts, rest') \<Rightarrow>
             (case utf8_decode b conts of
                None \<Rightarrow> Inl UriError
              | Some cp \<Rightarrow>
                  (case decode_uri_component rest' of Inl e \<Rightarrow> Inl e | Inr r \<Rightarrow> Inr (utf16_of cp @ r)))))"
proof -
  assume b: "b < 256"
  define h1 where "h1 = hex_digit (b div 16)"
  define h2 where "h2 = hex_digit (b mod 16)"
  have p: "pct_byte b @ rest = cu_percent # h1 # h2 # rest" by (simp add: pct_byte_def h1_def h2_def)
  have pa: "pct_byte_at (cu_percent # h1 # h2 # rest) = Some (b, rest)"
    using pct_byte_at_pct_byte [OF b, of rest] p by simp
  show ?thesis
    unfolding p
    apply (subst decode_uri_component.simps)
    apply (simp only: list.case pa)
    apply simp
    done
qed

lemma three_units: "(cp::nat) div 4096 * 4096 + cp div 64 mod 64 * 64 + cp mod 64 = cp"
proof -
  have a: "cp div 4096 = cp div 64 div 64" using div_mult2_eq [of cp 64 64] by simp
  have b: "cp div 64 div 64 * 64 + cp div 64 mod 64 = cp div 64" by (rule div_mult_mod_eq)
  have c: "cp div 64 * 64 + cp mod 64 = cp" by (rule div_mult_mod_eq)
  from a b c show ?thesis by linarith
qed

lemma four_units:
  "(cp::nat) div 262144 * 262144 + cp div 4096 mod 64 * 4096 + cp div 64 mod 64 * 64 + cp mod 64 = cp"
proof -
  have a: "cp div 262144 = cp div 4096 div 64" using div_mult2_eq [of cp 4096 64] by simp
  have b: "cp div 4096 div 64 * 64 + cp div 4096 mod 64 = cp div 4096" by (rule div_mult_mod_eq)
  from a b three_units [of cp] show ?thesis by linarith
qed

lemma cont_bytes_pct:
  "\<forall>b\<in>set bs. 0x80 \<le> b \<and> b \<le> 0xBF \<Longrightarrow>
   cont_bytes (length bs) (concat (map pct_byte bs) @ rest) = Some (bs, rest)"
  by (induction bs) (simp_all add: pct_byte_at_pct_byte)

lemma mod64_le: "(n :: nat) mod 64 \<le> 63"
  by simp

text \<open>Decoding one escaped multi-byte sequence: a lead byte and its continuation bytes.\<close>

lemma decode_lead:
  assumes "0x80 \<le> b" "b < 256" "utf8_len b = Suc (length cs)"
    and "\<forall>c\<in>set cs. 0x80 \<le> c \<and> c \<le> 0xBF" and "utf8_decode b cs = Some cp"
  shows "decode_uri_component (pct_byte b @ concat (map pct_byte cs) @ rest) =
           (case decode_uri_component rest of Inl e \<Rightarrow> Inl e | Inr r \<Rightarrow> Inr (utf16_of cp @ r))"
  using assms cont_bytes_pct [OF assms(4), of rest] by (simp add: decode_pct)

lemma decode_enc_cp:
  assumes cp: "cp < 0x110000" and ns: "\<not> (0xD800 \<le> cp \<and> cp \<le> 0xDFFF)"
  shows "decode_uri_component (enc_cp cp @ rest) =
           (case decode_uri_component rest of Inl e \<Rightarrow> Inl e | Inr r \<Rightarrow> Inr (utf16_of cp @ r))"
proof -
  consider (one) "cp < 0x80" | (two) "0x80 \<le> cp" "cp < 0x800" | (three) "0x800 \<le> cp" "cp < 0x10000"
    | (four) "0x10000 \<le> cp" by linarith
  then show ?thesis
  proof cases
    case one
    have u: "utf16_of cp = [of_nat cp]" using one by (simp add: utf16_of_def)
    have e: "enc_cp cp @ rest = pct_byte cp @ rest" using one by (simp add: enc_cp_def utf8_bytes_def)
    show ?thesis using one by (simp only: e u) (simp add: decode_pct split: sum.split)
  next
    case two
    let ?cs = "[0x80 + cp mod 64]"
    have "utf8_decode (0xC0 + cp div 64) ?cs = Some cp"
      using two by (simp add: utf8_decode_def)
    then show ?thesis
      using two decode_lead [of "0xC0 + cp div 64" ?cs cp rest]
      by (simp add: enc_cp_def utf8_bytes_def utf8_len_def)
  next
    case three
    let ?cs = "[0x80 + cp div 64 mod 64, 0x80 + cp mod 64]"
    have "utf8_decode (0xE0 + cp div 4096) ?cs = Some cp"
      using three ns three_units [of cp] by (simp add: utf8_decode_def Let_def)
    moreover have "cp div 4096 < 16" using three by (intro less_mult_imp_div_less) simp
    ultimately show ?thesis
      using three decode_lead [of "0xE0 + cp div 4096" ?cs cp rest]
      by (simp add: enc_cp_def utf8_bytes_def utf8_len_def mod64_le)
  next
    case four
    let ?cs = "[0x80 + cp div 4096 mod 64, 0x80 + cp div 64 mod 64, 0x80 + cp mod 64]"
    have "utf8_decode (0xF0 + cp div 262144) ?cs = Some cp"
      using four cp four_units [of cp] by (simp add: utf8_decode_def Let_def)
    moreover have "cp div 262144 < 5" using cp by (intro less_mult_imp_div_less) simp
    ultimately show ?thesis
      using four decode_lead [of "0xF0 + cp div 262144" ?cs cp rest]
      by (simp add: enc_cp_def utf8_bytes_def utf8_len_def mod64_le)
  qed
qed

lemma utf16_of_unit: "utf16_of (unat (c :: cu)) = [c]"
  using unat_cu_bound [of c] by (simp add: utf16_of_def)

lemma utf16_of_pair:
  assumes hi: "is_high_surrogate hi" and lo: "is_low_surrogate lo"
  shows "utf16_of (surrogate_cp hi lo) = [hi, lo]"
proof -
  have h: "0xD800 \<le> unat hi" "unat hi \<le> 0xDBFF" and l: "0xDC00 \<le> unat lo" "unat lo \<le> 0xDFFF"
    using hi lo by (auto simp: is_high_surrogate_def is_low_surrogate_def word_le_nat_alt)
  define a where "a = unat hi - 0xD800"
  define b where "b = unat lo - 0xDC00"
  have ab: "b < 0x400" "surrogate_cp hi lo = a * 0x400 + b + 0x10000"
    using l by (simp_all add: a_def b_def surrogate_cp_def)
  have d: "(a * 0x400 + b) div 0x400 = a" "(a * 0x400 + b) mod 0x400 = b"
    using ab(1) by simp_all
  have "of_nat (0xD800 + a) = hi" "of_nat (0xDC00 + b) = lo"
    using h l by (simp_all add: a_def b_def)
  then show ?thesis using ab d by (simp add: utf16_of_def)
qed

lemma surrogate_cp_range:
  "is_high_surrogate hi \<Longrightarrow> is_low_surrogate lo \<Longrightarrow> 0x10000 \<le> surrogate_cp hi lo"
  by (simp add: surrogate_cp_def)

lemma unit_not_surrogate_range:
  "\<not> is_high_surrogate c \<Longrightarrow> \<not> is_low_surrogate c \<Longrightarrow> \<not> (0xD800 \<le> unat c \<and> unat c \<le> 0xDFFF)"
  by (auto simp: is_high_surrogate_def is_low_surrogate_def word_le_nat_alt)

lemma percent_reserved: "\<not> uri_unreserved cu_percent"
  by (simp add: uri_unreserved_def)

lemma decode_encode:
  "encode_uri_component s = Inr r \<Longrightarrow> decode_uri_component r = Inr s"
proof (induction s arbitrary: r rule: encode_uri_component.induct)
  case 1
  then show ?case by (simp add: decode_Nil)
next
  case (2 c cs)
  show ?case
  proof (cases "uri_unreserved c")
    case True
    then have "c \<noteq> cu_percent" using percent_reserved by auto
    with True 2 show ?thesis by (auto simp: decode_plain split: sum.splits)
  next
    case nu: False
    show ?thesis
    proof (cases "is_high_surrogate c")
      case hi: True
      then have "\<not> is_low_surrogate c"
        by (simp add: is_high_surrogate_def is_low_surrogate_def word_le_nat_alt)
      with hi nu "2.prems" obtain d ds r' where cs: "cs = d # ds" and lo: "is_low_surrogate d"
          and e: "encode_uri_component ds = Inr r'" and r: "r = enc_cp (surrogate_cp c d) @ r'"
        by (auto split: list.splits if_splits sum.splits)
      have ns: "\<not> (0xD800 \<le> surrogate_cp c d \<and> surrogate_cp c d \<le> 0xDFFF)"
        using surrogate_cp_range [OF hi lo] by simp
      have "decode_uri_component r' = Inr ds" using "2.IH"(2) [OF nu _ hi cs lo e] hi
        by (simp add: is_high_surrogate_def is_low_surrogate_def word_le_nat_alt)
      then show ?thesis
        using r cs decode_enc_cp [OF surrogate_cp_bound [OF hi lo] ns] utf16_of_pair [OF hi lo] by simp
    next
      case nhi: False
      then have nlo: "\<not> is_low_surrogate c" using nu "2.prems" by auto
      with nhi nu "2.prems" obtain r' where e: "encode_uri_component cs = Inr r'"
          and r: "r = enc_cp (unat c) @ r'"
        by (auto split: sum.splits)
      have "decode_uri_component r' = Inr cs" using "2.IH"(3) [OF nu nlo nhi e] .
      then show ?thesis
        using r decode_enc_cp [OF _ unit_not_surrogate_range [OF nhi nlo]] unat_cu_bound [of c]
          utf16_of_unit [of c] by simp
    qed
  qed
qed


lemma encode_append_unreserved:
  "\<forall>c\<in>set t. uri_unreserved c \<Longrightarrow> encode_uri_component s = Inr r \<Longrightarrow>
   encode_uri_component (s @ t) = Inr (r @ t)"
proof (induction s arbitrary: r rule: encode_uri_component.induct)
  case 1
  then show ?case by (simp add: encode_unreserved)
next
  case (2 c cs)
  show ?case
  proof (cases "\<not> uri_unreserved c \<and> \<not> is_low_surrogate c \<and> is_high_surrogate c")
    case True
    with "2.prems" obtain d ds r' where cs: "cs = d # ds" and lo: "is_low_surrogate d"
        and e: "encode_uri_component ds = Inr r'" and r: "r = enc_cp (surrogate_cp c d) @ r'"
      by (auto split: list.splits if_splits sum.splits)
    have "encode_uri_component (ds @ t) = Inr (r' @ t)"
      using True "2.IH"(2) [OF _ _ _ cs lo "2.prems"(1) e] by simp
    with True cs lo r show ?thesis by simp
  next
    case False
    with 2 show ?thesis by (auto split: if_splits sum.splits)
  qed
qed

subsection \<open>Properties of the encoding against the decoding\<close>

text \<open>
  C24: every well-formed string is encoded, and decoding the encoding gives
  the string back.
\<close>

theorem decode_encode_roundtrip:
  "well_formed_utf16 s \<Longrightarrow> \<exists>r. encode_uri_component s = Inr r \<and> decode_uri_component r = Inr s"
  using encode_uri_component_wf [of s] decode_encode by blast

text \<open>
  Two strings the encoding accepts have the same encoding only if they
  are equal; distinct ids give distinct canonical URLs.
\<close>

lemma encode_uri_component_inj:
  "encode_uri_component s = Inr r \<Longrightarrow> encode_uri_component s' = Inr r' \<Longrightarrow> r = r' \<longleftrightarrow> s = s'"
  using decode_encode [of s r] decode_encode [of s' r'] by auto

subsection \<open>Witnesses\<close>

theorem decode_encode_roundtrip_witness:
  "well_formed_utf16 [0x8CEA] \<and> encode_uri_component [0x8CEA] = Inr (js_lit ''%E8%B3%AA'') \<and>
   decode_uri_component (js_lit ''%E8%B3%AA'') = Inr [0x8CEA]"
proof -
  have w: "well_formed_utf16 [0x8CEA]" by (simp add: is_high_surrogate_def is_low_surrogate_def)
  have e: "encode_uri_component [0x8CEA] = Inr (js_lit ''%E8%B3%AA'')"
    by (simp add: uri_unreserved_def is_low_surrogate_def is_high_surrogate_def enc_cp_def
        utf8_bytes_def pct_byte_def hex_digit_def)
  show ?thesis using decode_encode_roundtrip [OF w] w e by auto
qed

end
