(* ===== verification/JsonParse.thy ===== *)
theory JsonParse
  imports JsValue
begin

text \<open>
  \<open>JSON.parse\<close>, which \<open>loadJson\<close> (line 31 of \<open>src/generate.mjs\<close>) applies
  to the text of \<open>questions.json\<close>, after the JSON grammar of ECMA-404 and
  ECMAScript's \<open>JSON.parse\<close>: whitespace is space, tab, line feed and
  carriage return only; a value is an object, an array, a string, a number,
  \<open>true\<close>, \<open>false\<close> or \<open>null\<close>; strings take any code unit from \<open>0x20\<close>
  up except \<open>"\<close> and \<open>\\<close>, and the escapes \<open>\" \\ \/ \b \f \n \r \t\<close> and
  \<open>\uXXXX\<close>; the whole text is one value between whitespace. An object
  keeps its members in order, duplicates included (\<open>get_prop\<close> reads the
  last). The parser is recursive descent over code units: each parser returns
  the value and the rest of the input, or an error. A syntax error is
  \<open>JSyntax\<close> (the \<open>SyntaxError\<close> the script does not catch). Numbers are
  modelled as integers: a number with a fraction or an exponent, or an
  integer beyond \<open>2^53\<close> (where a double is no longer exact), is
  \<open>JUnsupported\<close>, the boundary of the model. Nesting makes the recursion
  non-structural, so the three mutually recursive parsers take fuel; running
  out is \<open>JOutOfFuel\<close>, and the lemmas show that the fuel \<open>json_parse\<close>
  gives is always enough.
\<close>

datatype json_err = JSyntax | JUnsupported | JOutOfFuel

definition is_json_ws :: "cu \<Rightarrow> bool" where
  "is_json_ws c \<longleftrightarrow> c = 32 \<or> c = 9 \<or> c = 10 \<or> c = 13"

definition skip_ws :: "jstr \<Rightarrow> jstr" where
  "skip_ws s = dropWhile is_json_ws s"

definition is_digit :: "cu \<Rightarrow> bool" where
  "is_digit c \<longleftrightarrow> 48 \<le> c \<and> c \<le> 57"

definition digits_val :: "jstr \<Rightarrow> nat" where
  "digits_val ds = foldl (\<lambda>acc d. 10 * acc + (unat d - 48)) 0 ds"

subsection \<open>Strings\<close>

definition simple_escape :: "cu \<Rightarrow> cu option" where
  "simple_escape e =
     (if e = 34 then Some 34 else if e = 92 then Some 92 else if e = 47 then Some 47
      else if e = 98 then Some 8 else if e = 102 then Some 12 else if e = 110 then Some 10
      else if e = 114 then Some 13 else if e = 116 then Some 9 else None)"

definition hex4 :: "cu \<Rightarrow> cu \<Rightarrow> cu \<Rightarrow> cu \<Rightarrow> nat option" where
  "hex4 a b c d =
     (case (hex_val a, hex_val b, hex_val c, hex_val d) of
        (Some w, Some x, Some y, Some z) \<Rightarrow> Some (((w * 16 + x) * 16 + y) * 16 + z)
      | _ \<Rightarrow> None)"

definition jcons :: "'a \<Rightarrow> json_err + ('a list \<times> jstr) \<Rightarrow> json_err + ('a list \<times> jstr)" where
  "jcons x r = (case r of Inl e \<Rightarrow> Inl e | Inr (xs, rest) \<Rightarrow> Inr (x # xs, rest))"

definition jmap :: "('a \<Rightarrow> 'b) \<Rightarrow> json_err + ('a \<times> jstr) \<Rightarrow> json_err + ('b \<times> jstr)" where
  "jmap f r = (case r of Inl e \<Rightarrow> Inl e | Inr (x, rest) \<Rightarrow> Inr (f x, rest))"

text \<open>The body of a string literal after its opening quote, up to and including the closing quote.\<close>

fun parse_chars :: "jstr \<Rightarrow> json_err + (jstr \<times> jstr)" where
  "parse_chars [] = Inl JSyntax"
| "parse_chars (c # cs) =
     (if c = 34 then Inr ([], cs)
      else if c = 92 then
        (case cs of
           [] \<Rightarrow> Inl JSyntax
         | e # r \<Rightarrow>
             (if e = 117 then
                (case r of
                   h1 # h2 # h3 # h4 # r' \<Rightarrow>
                     (case hex4 h1 h2 h3 h4 of
                        Some v \<Rightarrow> jcons (of_nat v) (parse_chars r')
                      | None \<Rightarrow> Inl JSyntax)
                 | _ \<Rightarrow> Inl JSyntax)
              else
                (case simple_escape e of
                   Some d \<Rightarrow> jcons d (parse_chars r)
                 | None \<Rightarrow> Inl JSyntax)))
      else if c < 32 then Inl JSyntax
      else jcons c (parse_chars cs))"

subsection \<open>Numbers\<close>

text \<open>An optional fraction \<open>.d+\<close> and exponent \<open>[eE][+-]?d+\<close>: the rest after them, or \<open>None\<close> when malformed.\<close>

definition skip_frac :: "jstr \<Rightarrow> jstr option" where
  "skip_frac r =
     (if r \<noteq> [] \<and> hd r = 46 then
        (if takeWhile is_digit (tl r) = [] then None else Some (dropWhile is_digit (tl r)))
      else Some r)"

definition skip_exp :: "jstr \<Rightarrow> jstr option" where
  "skip_exp r =
     (if r \<noteq> [] \<and> (hd r = 101 \<or> hd r = 69) then
        (let r1 = tl r; r2 = (if r1 \<noteq> [] \<and> (hd r1 = 43 \<or> hd r1 = 45) then tl r1 else r1)
         in if takeWhile is_digit r2 = [] then None else Some (dropWhile is_digit r2))
      else Some r)"

definition parse_number :: "jstr \<Rightarrow> json_err + (jsval \<times> jstr)" where
  "parse_number s =
     (let neg = (s \<noteq> [] \<and> hd s = 45);
          s1 = (if neg then tl s else s);
          ds = (if s1 \<noteq> [] \<and> hd s1 = 48 then [48] else takeWhile is_digit s1);
          r = drop (length ds) s1
      in if ds = [] then Inl JSyntax
         else
           (case skip_frac r of
              None \<Rightarrow> Inl JSyntax
            | Some r' \<Rightarrow>
                (case skip_exp r' of
                   None \<Rightarrow> Inl JSyntax
                 | Some r'' \<Rightarrow>
                     (if r'' \<noteq> r \<or> 2 ^ 53 < digits_val ds then Inl JUnsupported
                      else Inr (JNum (if neg then - int (digits_val ds) else int (digits_val ds)), r)))))"

subsection \<open>Values, arrays and objects\<close>

text \<open>The rest of a literal \<open>true\<close>, \<open>false\<close> or \<open>null\<close> after its first letter.\<close>

definition parse_lit :: "jstr \<Rightarrow> jsval \<Rightarrow> jstr \<Rightarrow> json_err + (jsval \<times> jstr)" where
  "parse_lit lit v cs = (if take (length lit) cs = lit then Inr (v, drop (length lit) cs) else Inl JSyntax)"

fun parse_value :: "nat \<Rightarrow> jstr \<Rightarrow> json_err + (jsval \<times> jstr)"
and parse_elems :: "nat \<Rightarrow> jstr \<Rightarrow> json_err + (jsval list \<times> jstr)"
and parse_members :: "nat \<Rightarrow> jstr \<Rightarrow> json_err + ((jstr \<times> jsval) list \<times> jstr)" where
  "parse_value 0 s = Inl JOutOfFuel"
| "parse_value (Suc n) s =
     (case s of
        [] \<Rightarrow> Inl JSyntax
      | c # cs \<Rightarrow>
          (if c = 123 then
             (let t = skip_ws cs in
              if t \<noteq> [] \<and> hd t = 125 then Inr (JObj [], tl t) else jmap JObj (parse_members n t))
           else if c = 91 then
             (let t = skip_ws cs in
              if t \<noteq> [] \<and> hd t = 93 then Inr (JArr [], tl t) else jmap JArr (parse_elems n t))
           else if c = 34 then jmap JStr (parse_chars cs)
           else if c = 116 then parse_lit (js_lit ''rue'') (JBool True) cs
           else if c = 102 then parse_lit (js_lit ''alse'') (JBool False) cs
           else if c = 110 then parse_lit (js_lit ''ull'') JNull cs
           else if c = 45 \<or> is_digit c then parse_number s
           else Inl JSyntax))"
| "parse_elems 0 s = Inl JOutOfFuel"
| "parse_elems (Suc n) s =
     (case parse_value n s of
        Inl e \<Rightarrow> Inl e
      | Inr (v, r) \<Rightarrow>
          (let t = skip_ws r in
           if t \<noteq> [] \<and> hd t = 44 then jcons v (parse_elems n (skip_ws (tl t)))
           else if t \<noteq> [] \<and> hd t = 93 then Inr ([v], tl t)
           else Inl JSyntax))"
| "parse_members 0 s = Inl JOutOfFuel"
| "parse_members (Suc n) s =
     (if s \<noteq> [] \<and> hd s = 34 then
        (case parse_chars (tl s) of
           Inl e \<Rightarrow> Inl e
         | Inr (k, r) \<Rightarrow>
             (let t = skip_ws r in
              if t \<noteq> [] \<and> hd t = 58 then
                (case parse_value n (skip_ws (tl t)) of
                   Inl e \<Rightarrow> Inl e
                 | Inr (v, r2) \<Rightarrow>
                     (let t2 = skip_ws r2 in
                      if t2 \<noteq> [] \<and> hd t2 = 44 then jcons (k, v) (parse_members n (skip_ws (tl t2)))
                      else if t2 \<noteq> [] \<and> hd t2 = 125 then Inr ([(k, v)], tl t2)
                      else Inl JSyntax))
              else Inl JSyntax))
      else Inl JSyntax)"

text \<open>\<open>JSON.parse(text)\<close>: one value between whitespace, with fuel twice the length of the text.\<close>

definition json_parse :: "jstr \<Rightarrow> json_err + jsval" where
  "json_parse s =
     (case parse_value (Suc (2 * length s)) (skip_ws s) of
        Inl e \<Rightarrow> Inl e
      | Inr (v, r) \<Rightarrow> if skip_ws r = [] then Inr v else Inl JSyntax)"

subsection \<open>The values JSON denotes, and a printer\<close>

text \<open>
  The values a JSON text can denote in this model: no \<open>undefined\<close> anywhere,
  and integers a double holds exactly.
\<close>

fun json_value :: "jsval \<Rightarrow> bool" where
  "json_value JUndef = False"
| "json_value (JNum i) = (\<bar>i\<bar> \<le> 2 ^ 53)"
| "json_value (JArr vs) = list_all json_value vs"
| "json_value (JObj kvs) = list_all (\<lambda>(k, v). json_value v) kvs"
| "json_value _ = True"

text \<open>
  A printer of JSON text in the layout \<open>JSON.stringify\<close> uses (no
  whitespace; \<open>"\<close>, \<open>\\\<close> and control characters escaped), the
  reference the parser is checked against; the script does not print JSON.
\<close>

definition json_hex :: "nat \<Rightarrow> cu" where
  "json_hex n = (if n < 10 then of_nat (48 + n) else of_nat (87 + n))"

definition json_esc :: "cu \<Rightarrow> jstr" where
  "json_esc c =
     (if c = 34 then [92, 34] else if c = 92 then [92, 92]
      else if c < 32 then [92, 117, 48, 48, json_hex (unat c div 16), json_hex (unat c mod 16)]
      else [c])"

definition json_quote :: "jstr \<Rightarrow> jstr" where
  "json_quote s = 34 # concat (map json_esc s) @ [34]"

fun json_print :: "jsval \<Rightarrow> jstr" where
  "json_print JUndef = js_lit ''null''"
| "json_print JNull = js_lit ''null''"
| "json_print (JBool b) = (if b then js_lit ''true'' else js_lit ''false'')"
| "json_print (JNum i) = num_to_jstr i"
| "json_print (JStr s) = json_quote s"
| "json_print (JArr vs) = 91 # join [44] (map json_print vs) @ [93]"
| "json_print (JObj kvs) = 123 # join [44] (map (\<lambda>(k, v). json_quote k @ 58 # json_print v) kvs) @ [125]"

text \<open>The members of an object as printed: the quoted key, a colon and the value.\<close>

definition member_print :: "jstr \<times> jsval \<Rightarrow> jstr" where
  "member_print kv = json_quote (fst kv) @ 58 # json_print (snd kv)"

text \<open>
  The parser \<open>loadJson\<close> hands to \<open>run\<close>: \<open>None\<close> for a text
  \<open>JSON.parse\<close> rejects. It is exact on every text \<open>json_parse\<close> decides;
  a text with a number outside the model (\<open>JUnsupported\<close>) is mapped to
  \<open>None\<close> too, and no claim is made about such texts.
\<close>

definition json_text_parse :: "jstr \<Rightarrow> jsval option" where
  "json_text_parse s = (case json_parse s of Inr v \<Rightarrow> Some v | Inl _ \<Rightarrow> None)"

text \<open>A text after a number that cannot continue it.\<close>

definition num_delim :: "jstr \<Rightarrow> bool" where
  "num_delim r \<longleftrightarrow> r = [] \<or> \<not> is_digit (hd r) \<and> hd r \<noteq> 46 \<and> hd r \<noteq> 101 \<and> hd r \<noteq> 69"

text \<open>What may follow a value inside a JSON text: nothing, a comma or a closing bracket.\<close>

definition val_delim :: "jstr \<Rightarrow> bool" where
  "val_delim r \<longleftrightarrow> r = [] \<or> hd r = 44 \<or> hd r = 93 \<or> hd r = 125"

subsection \<open>Evaluation\<close>

text \<open>The fuel of a concrete text is a numeral; these rules let the simplifier unfold it one step at a time.\<close>

lemmas parse_fuel_numeral [simp] =
  parse_value.simps(2) [of "pred_numeral k" for k, folded numeral_eq_Suc]
  parse_elems.simps(2) [of "pred_numeral k" for k, folded numeral_eq_Suc]
  parse_members.simps(2) [of "pred_numeral k" for k, folded numeral_eq_Suc]



subsection \<open>Each parser consumes input\<close>

lemma jcons_Inr: "jcons x r = Inr (xs, rest) \<longleftrightarrow> (\<exists>ys. r = Inr (ys, rest) \<and> xs = x # ys)"
  by (auto simp: jcons_def split: sum.splits prod.splits)

lemma jcons_Inl: "jcons x r = Inl e \<longleftrightarrow> r = Inl e"
  by (auto simp: jcons_def split: sum.splits prod.splits)

lemma parse_chars_shorter: "parse_chars s = Inr (str, r) \<Longrightarrow> length r < length s"
proof (induction s arbitrary: str rule: parse_chars.induct)
  case 1
  then show ?case by simp
next
  case (2 c cs)
  show ?case
  proof (cases "c = 34 \<or> c \<noteq> 92")
    case True
    with 2 show ?thesis by (auto simp: jcons_Inr split: if_splits)
  next
    case False
    with "2.prems" obtain e r0 where cs: "cs = e # r0"
      by (cases cs) auto
    show ?thesis
    proof (cases "e = 117")
      case True
      with False "2.prems" cs obtain h1 h2 h3 h4 r' v str' where
        r0: "r0 = h1 # h2 # h3 # h4 # r'" and hx: "hex4 h1 h2 h3 h4 = Some v"
        and p: "parse_chars r' = Inr (str', r)"
        by (auto simp: jcons_Inr split: list.splits option.splits)
      have "length r < length r'" using "2.IH"(1) [OF _ _ cs True r0 refl refl refl hx p] False by simp
      then show ?thesis by (simp add: cs r0)
    next
      case ne: False
      with False "2.prems" cs obtain d str' where se: "simple_escape e = Some d"
        and p: "parse_chars r0 = Inr (str', r)"
        by (auto simp: jcons_Inr split: option.splits)
      have "length r < length r0" using "2.IH"(2) [OF _ _ cs ne se p] False by simp
      then show ?thesis by (simp add: cs)
    qed
  qed
qed

lemma parse_chars_err: "parse_chars s = Inl e \<Longrightarrow> e = JSyntax"
proof (induction s rule: parse_chars.induct)
  case 1
  then show ?case by simp
next
  case (2 c cs)
  show ?case
  proof (cases "c = 34 \<or> c \<noteq> 92")
    case True
    with 2 show ?thesis by (auto simp: jcons_Inl split: if_splits)
  next
    case False
    show ?thesis
    proof (cases cs)
      case Nil
      with "2.prems" False show ?thesis by simp
    next
      case (Cons x r0)
      show ?thesis
      proof (cases "x = 117")
        case True
        show ?thesis
        proof (cases "\<exists>h1 h2 h3 h4 r'. r0 = h1 # h2 # h3 # h4 # r'")
          case True
          then obtain h1 h2 h3 h4 r' where r0: "r0 = h1 # h2 # h3 # h4 # r'" by blast
          show ?thesis
          proof (cases "hex4 h1 h2 h3 h4")
            case None
            with "2.prems" False Cons \<open>x = 117\<close> r0 show ?thesis by simp
          next
            case (Some v)
            with "2.prems" False Cons \<open>x = 117\<close> r0 have "parse_chars r' = Inl e"
              by (simp add: jcons_Inl)
            with "2.IH"(1) [OF _ _ Cons \<open>x = 117\<close> r0 refl refl refl Some] False show ?thesis by simp
          qed
        next
          case False
          with "2.prems" \<open>\<not> (c = 34 \<or> c \<noteq> 92)\<close> Cons \<open>x = 117\<close> show ?thesis
            by (auto split: list.splits)
        qed
      next
        case ne: False
        show ?thesis
        proof (cases "simple_escape x")
          case None
          with "2.prems" False Cons ne show ?thesis by simp
        next
          case (Some d)
          with "2.prems" False Cons ne have "parse_chars r0 = Inl e" by (simp add: jcons_Inl)
          with "2.IH"(2) [OF _ _ Cons ne Some] False show ?thesis by simp
        qed
      qed
    qed
  qed
qed

lemma parse_number_err: "parse_number s = Inl e \<Longrightarrow> e = JSyntax \<or> e = JUnsupported"
  unfolding parse_number_def Let_def by (simp split: option.splits if_splits)

lemma takeWhile_consumes: "takeWhile P xs \<noteq> [] \<Longrightarrow> length xs - length (takeWhile P xs) < length xs"
  by (cases xs) auto

lemma parse_number_shorter: "parse_number s = Inr (v, r) \<Longrightarrow> length r < length s"
  unfolding parse_number_def Let_def
  by (cases s) (auto split: option.splits if_splits dest: takeWhile_consumes)


lemma length_skip_ws: "length (skip_ws s) \<le> length s"
  by (simp add: skip_ws_def length_dropWhile_le)

lemma jmap_Inr: "jmap f x = Inr (v, r) \<longleftrightarrow> (\<exists>y. x = Inr (y, r) \<and> v = f y)"
  by (auto simp: jmap_def split: sum.splits prod.splits)

lemma jmap_Inl: "jmap f x = Inl e \<longleftrightarrow> x = Inl e"
  by (auto simp: jmap_def split: sum.splits prod.splits)

lemma parse_lit_shorter: "lit \<noteq> [] \<Longrightarrow> parse_lit lit v cs = Inr (w, r) \<Longrightarrow> length r < Suc (length cs)"
  by (auto simp: parse_lit_def split: if_splits)

lemma parse_shorter_fuel:
  "(\<forall>s v r. parse_value n s = Inr (v, r) \<longrightarrow> length r < length s) \<and>
   (\<forall>s vs r. parse_elems n s = Inr (vs, r) \<longrightarrow> length r < length s) \<and>
   (\<forall>s kvs r. parse_members n s = Inr (kvs, r) \<longrightarrow> length r < length s)"
proof (induction n)
  case 0
  then show ?case by simp
next
  case (Suc n)
  then have iv: "parse_value n s = Inr (v, r) \<Longrightarrow> length r < length s"
    and ie: "parse_elems n s = Inr (vs, r) \<Longrightarrow> length r < length s"
    and im: "parse_members n s = Inr (kvs, r) \<Longrightarrow> length r < length s" for s v r vs kvs
    by blast+
  have v: "length r < length s" if h: "parse_value (Suc n) s = Inr (v, r)" for s v r
  proof (cases s)
    case Nil
    with h show ?thesis by simp
  next
    case (Cons c cs)
    have sk: "length (skip_ws cs) \<le> length cs" by (rule length_skip_ws)
    from h sk show ?thesis
      by (auto simp: Cons Let_def jmap_Inr split: if_splits
          dest: ie im parse_chars_shorter parse_number_shorter parse_lit_shorter [rotated])
  qed
  have e: "length r < length s" if h: "parse_elems (Suc n) s = Inr (vs, r)" for s vs r
  proof -
    obtain v r0 where pv: "parse_value n s = Inr (v, r0)"
      using h by (cases "parse_value n s") (auto split: prod.splits)
    define t where "t = skip_ws r0"
    have lt: "length t < length s" using iv [OF pv] length_skip_ws [of r0] by (simp add: t_def)
    from h pv have "(t \<noteq> [] \<and> (\<exists>vs'. parse_elems n (skip_ws (tl t)) = Inr (vs', r))) \<or> r = tl t"
      by (auto simp: t_def [symmetric] Let_def jcons_Inr split: if_splits)
    then show ?thesis
      using lt length_skip_ws [of "tl t"] by (auto dest: ie)
  qed
  have m: "length r < length s" if h: "parse_members (Suc n) s = Inr (kvs, r)" for s kvs r
  proof -
    obtain k r0 where s0: "s \<noteq> []" "hd s = 34" and pc: "parse_chars (tl s) = Inr (k, r0)"
      using h by (cases "parse_chars (tl s)") (auto split: if_splits prod.splits)
    define t where "t = skip_ws r0"
    have lt: "length t < length s"
      using parse_chars_shorter [OF pc] length_skip_ws [of r0] s0 by (simp add: t_def)
    obtain v r1 where t0: "t \<noteq> []" "hd t = 58" and pv: "parse_value n (skip_ws (tl t)) = Inr (v, r1)"
      using h s0 pc
      by (cases "parse_value n (skip_ws (tl t))") (auto simp: t_def [symmetric] Let_def split: if_splits prod.splits)
    define t2 where "t2 = skip_ws r1"
    have lt2: "length t2 < length s"
      using iv [OF pv] length_skip_ws [of r1] length_skip_ws [of "tl t"] lt t0 by (simp add: t2_def)
    from h s0 pc t0 pv have "(t2 \<noteq> [] \<and> (\<exists>kvs'. parse_members n (skip_ws (tl t2)) = Inr (kvs', r))) \<or> r = tl t2"
      by (auto simp: t_def [symmetric] t2_def [symmetric] Let_def jcons_Inr split: if_splits)
    then show ?thesis
      using lt2 length_skip_ws [of "tl t2"] by (auto dest: im)
  qed
  show ?case using v e m by blast
qed


subsection \<open>The fuel is enough\<close>

lemma parse_lit_err: "parse_lit lit v cs = Inl e \<Longrightarrow> e = JSyntax"
  by (simp add: parse_lit_def split: if_splits)

text \<open>Where an error of each parser comes from: its own syntax check or a parser it calls.\<close>

lemma parse_value_Inl:
  "parse_value (Suc n) s = Inl e \<Longrightarrow>
     e = JSyntax \<or> e = JUnsupported \<or> parse_members n (skip_ws (tl s)) = Inl e \<or>
     parse_elems n (skip_ws (tl s)) = Inl e"
  by (cases s)
     (auto simp: Let_def jmap_Inl split: if_splits dest: parse_chars_err parse_number_err parse_lit_err)

lemma parse_elems_Inl:
  "parse_elems (Suc n) s = Inl e \<Longrightarrow>
     e = JSyntax \<or> parse_value n s = Inl e \<or>
     (\<exists>v r0. parse_value n s = Inr (v, r0) \<and> skip_ws r0 \<noteq> [] \<and>
        parse_elems n (skip_ws (tl (skip_ws r0))) = Inl e)"
  by (auto simp: Let_def jcons_Inl split: sum.splits if_splits)

lemma parse_members_Inl:
  "parse_members (Suc n) s = Inl e \<Longrightarrow>
     e = JSyntax \<or>
     (\<exists>k r0. s \<noteq> [] \<and> parse_chars (tl s) = Inr (k, r0) \<and> skip_ws r0 \<noteq> [] \<and>
        (parse_value n (skip_ws (tl (skip_ws r0))) = Inl e \<or>
         (\<exists>v r1. parse_value n (skip_ws (tl (skip_ws r0))) = Inr (v, r1) \<and> skip_ws r1 \<noteq> [] \<and>
            parse_members n (skip_ws (tl (skip_ws r1))) = Inl e)))"
  by (auto simp: Let_def jcons_Inl split: sum.splits if_splits dest: parse_chars_err)

lemma parse_fuel_enough:
  "(\<forall>s. 2 * length s < n \<longrightarrow> parse_value n s \<noteq> Inl JOutOfFuel) \<and>
   (\<forall>s. 2 * length s + 1 < n \<longrightarrow> parse_elems n s \<noteq> Inl JOutOfFuel) \<and>
   (\<forall>s. 2 * length s + 1 < n \<longrightarrow> parse_members n s \<noteq> Inl JOutOfFuel)"
proof (induction n)
  case 0
  then show ?case by simp
next
  case (Suc n)
  then have iv: "2 * length s < n \<Longrightarrow> parse_value n s \<noteq> Inl JOutOfFuel"
    and ie: "2 * length s + 1 < n \<Longrightarrow> parse_elems n s \<noteq> Inl JOutOfFuel"
    and im: "2 * length s + 1 < n \<Longrightarrow> parse_members n s \<noteq> Inl JOutOfFuel" for s
    by blast+
  have sh: "length r < length s" if "parse_value n s = Inr (v, r)" for s v r
    using parse_shorter_fuel that by blast
  have tl_ws: "length (skip_ws (tl x)) < length s" if "x \<noteq> []" "length x \<le> length s" for x s :: jstr
    using length_skip_ws [of "tl x"] that by (cases x) auto
  have v: "parse_value (Suc n) s \<noteq> Inl JOutOfFuel" if "2 * length s < Suc n" for s
  proof
    assume h: "parse_value (Suc n) s = Inl JOutOfFuel"
    then have "s \<noteq> []" by (cases s) auto
    then have "2 * length (skip_ws (tl s)) + 1 < n"
      using that length_skip_ws [of "tl s"] by (cases s) auto
    then show False using parse_value_Inl [OF h] ie im by blast
  qed
  have e: "parse_elems (Suc n) s \<noteq> Inl JOutOfFuel" if "2 * length s + 1 < Suc n" for s
  proof
    assume h: "parse_elems (Suc n) s = Inl JOutOfFuel"
    have "2 * length s < n" using that by simp
    with parse_elems_Inl [OF h] iv obtain v r0 where pv: "parse_value n s = Inr (v, r0)"
      and ne: "skip_ws r0 \<noteq> []" and pe: "parse_elems n (skip_ws (tl (skip_ws r0))) = Inl JOutOfFuel"
      by blast
    have "length (skip_ws (tl (skip_ws r0))) < length r0"
      using tl_ws [OF ne length_skip_ws] .
    then show False using sh [OF pv] that ie [of "skip_ws (tl (skip_ws r0))"] pe by simp
  qed
  have m: "parse_members (Suc n) s \<noteq> Inl JOutOfFuel" if "2 * length s + 1 < Suc n" for s
  proof
    assume h: "parse_members (Suc n) s = Inl JOutOfFuel"
    then obtain k r0 where s0: "s \<noteq> []" and pc: "parse_chars (tl s) = Inr (k, r0)"
      and ne: "skip_ws r0 \<noteq> []"
      and rest: "parse_value n (skip_ws (tl (skip_ws r0))) = Inl JOutOfFuel \<or>
         (\<exists>v r1. parse_value n (skip_ws (tl (skip_ws r0))) = Inr (v, r1) \<and> skip_ws r1 \<noteq> [] \<and>
            parse_members n (skip_ws (tl (skip_ws r1))) = Inl JOutOfFuel)"
      using parse_members_Inl by blast
    have "length r0 < length (tl s)" by (rule parse_chars_shorter [OF pc])
    then have l1: "length (skip_ws (tl (skip_ws r0))) + 2 < length s + 1"
      using tl_ws [OF ne length_skip_ws] s0 by (cases s) auto
    show False
      using rest
    proof
      assume "parse_value n (skip_ws (tl (skip_ws r0))) = Inl JOutOfFuel"
      then show False using iv l1 that by force
    next
      assume "\<exists>v r1. parse_value n (skip_ws (tl (skip_ws r0))) = Inr (v, r1) \<and> skip_ws r1 \<noteq> [] \<and>
            parse_members n (skip_ws (tl (skip_ws r1))) = Inl JOutOfFuel"
      then obtain v r1 where pv: "parse_value n (skip_ws (tl (skip_ws r0))) = Inr (v, r1)"
        and ne1: "skip_ws r1 \<noteq> []" and pm: "parse_members n (skip_ws (tl (skip_ws r1))) = Inl JOutOfFuel"
        by blast
      have "length (skip_ws (tl (skip_ws r1))) < length r1" using tl_ws [OF ne1 length_skip_ws] .
      then show False using sh [OF pv] l1 that im [of "skip_ws (tl (skip_ws r1))"] pm by simp
    qed
  qed
  show ?case using v e m by blast
qed


subsection \<open>Parsed values are JSON values\<close>

lemma parse_number_value: "parse_number s = Inr (v, r) \<Longrightarrow> json_value v"
  unfolding parse_number_def Let_def by (auto split: option.splits if_splits)

lemma parse_value_type:
  "(\<forall>s v r. parse_value n s = Inr (v, r) \<longrightarrow> json_value v) \<and>
   (\<forall>s vs r. parse_elems n s = Inr (vs, r) \<longrightarrow> list_all json_value vs) \<and>
   (\<forall>s kvs r. parse_members n s = Inr (kvs, r) \<longrightarrow> list_all (\<lambda>(k, v). json_value v) kvs)"
proof (induction n)
  case 0
  then show ?case by simp
next
  case (Suc n)
  then have iv: "parse_value n s = Inr (v, r) \<Longrightarrow> json_value v"
    and ie: "parse_elems n s = Inr (vs, r) \<Longrightarrow> list_all json_value vs"
    and im: "parse_members n s = Inr (kvs, r) \<Longrightarrow> list_all (\<lambda>(k, v). json_value v) kvs" for s v r vs kvs
    by blast+
  have v: "json_value v" if h: "parse_value (Suc n) s = Inr (v, r)" for s v r
    using h by (cases s)
      (auto simp: Let_def jmap_Inr parse_lit_def split: if_splits dest: ie im parse_number_value)
  have e: "list_all json_value vs" if h: "parse_elems (Suc n) s = Inr (vs, r)" for s vs r
    using h
    apply (auto simp: Let_def jcons_Inr split: sum.splits if_splits)
    using iv ie by blast+
  have m: "list_all (\<lambda>(k, v). json_value v) kvs" if h: "parse_members (Suc n) s = Inr (kvs, r)" for s kvs r
    using h
    apply (auto simp: Let_def jcons_Inr split: sum.splits if_splits)
    using iv im by blast+
  show ?case using v e m by blast
qed


subsection \<open>Printed values parse back\<close>

lemma hex_val_json_hex: "n < 16 \<Longrightarrow> hex_val (json_hex n) = Some n"
proof -
  assume n: "n < 16"
  have "unat (json_hex n) = (if n < 10 then 48 + n else 87 + n)"
    using n by (simp add: json_hex_def unat_of_nat del: of_nat_add)
  then show ?thesis
    using n by (auto simp: hex_val_def word_le_nat_alt split: if_splits)
qed

lemma unat_lt32: "(c :: cu) < 32 \<Longrightarrow> unat c < 32"
  by (simp add: word_less_nat_alt)

lemma parse_chars_quote:
  "parse_chars (concat (map json_esc s) @ 34 # rest) = Inr (s, rest)"
proof (induction s)
  case Nil
  then show ?case by simp
next
  case (Cons c s)
  show ?case
  proof (cases "c = 34 \<or> c = 92")
    case True
    with Cons show ?thesis by (auto simp: json_esc_def simple_escape_def jcons_def)
  next
    case ne: False
    show ?thesis
    proof (cases "c < 32")
      case True
      then have u: "unat c < 32" by (rule unat_lt32)
      then have "hex4 48 48 (json_hex (unat c div 16)) (json_hex (unat c mod 16)) = Some (unat c)"
        by (simp add: hex4_def hex_val_json_hex) (simp add: hex_val_def)
      with Cons ne True show ?thesis by (simp add: json_esc_def jcons_def)
    next
      case False
      with Cons ne show ?thesis by (simp add: json_esc_def jcons_def)
    qed
  qed
qed

lemma unat_digit: "m < 10 \<Longrightarrow> unat (48 + of_nat m :: cu) = 48 + m"
proof -
  assume m: "m < 10"
  then have "unat (of_nat (48 + m) :: cu) = 48 + m" by (simp add: unat_of_nat del: of_nat_add)
  then show ?thesis by simp
qed

lemma is_digit_digit: "m < 10 \<Longrightarrow> is_digit (48 + of_nat m)"
  using unat_digit [of m] by (simp add: is_digit_def word_le_nat_alt)

lemma dec_digits_digits: "\<forall>d\<in>set (dec_digits k). is_digit d"
  by (induction k rule: dec_digits.induct) (subst dec_digits.simps, simp add: is_digit_digit)

lemma digits_val_snoc: "digits_val (ds @ [d]) = 10 * digits_val ds + (unat d - 48)"
  by (simp add: digits_val_def)

lemma digits_val_dec_digits: "digits_val (dec_digits k) = k"
proof (induction k rule: dec_digits.induct)
  case (1 n)
  show ?case
  proof (cases "n < 10")
    case True
    then show ?thesis by (subst dec_digits.simps) (simp add: digits_val_def unat_digit)
  next
    case False
    then have "dec_digits n = dec_digits (n div 10) @ [48 + of_nat (n mod 10)]"
      by (subst dec_digits.simps) simp
    with 1 False show ?thesis by (simp add: digits_val_snoc unat_digit)
  qed
qed

lemma dec_digits_hd: "0 < k \<Longrightarrow> hd (dec_digits k) \<noteq> 48"
proof (induction k rule: dec_digits.induct)
  case (1 n)
  show ?case
  proof (cases "n < 10")
    case True
    then have "unat (hd (dec_digits n)) = 48 + n" by (subst dec_digits.simps) (simp add: unat_digit)
    with "1.prems" show ?thesis by auto
  next
    case False
    then have "dec_digits n = dec_digits (n div 10) @ [48 + of_nat (n mod 10)]"
      by (subst dec_digits.simps) simp
    with 1 False show ?thesis by (simp add: dec_digits_nonempty)
  qed
qed

lemma dec_digits_zero: "dec_digits 0 = [48]"
  by (subst dec_digits.simps) simp

lemma takeWhile_digits:
  "\<forall>d\<in>set ds. is_digit d \<Longrightarrow> num_delim r \<Longrightarrow> takeWhile is_digit (ds @ r) = ds"
proof (induction ds)
  case Nil
  then show ?case by (cases r) (auto simp: num_delim_def)
qed simp

lemma skip_frac_exp_delim: "num_delim r \<Longrightarrow> skip_frac r = Some r \<and> skip_exp r = Some r"
  by (auto simp: num_delim_def skip_frac_def skip_exp_def)

lemma parse_number_run:
  assumes ds: "ds \<noteq> []" "\<forall>d\<in>set ds. is_digit d" "hd ds = 48 \<longrightarrow> ds = [48]"
    and r: "num_delim r" and b: "digits_val ds \<le> 2 ^ 53"
  shows "parse_number (ds @ r) = Inr (JNum (int (digits_val ds)), r) \<and>
         parse_number (45 # ds @ r) = Inr (JNum (- int (digits_val ds)), r)"
proof -
  have fe: "skip_frac r = Some r" "skip_exp r = Some r" using skip_frac_exp_delim [OF r] by simp_all
  have h45: "hd ds \<noteq> 45" using ds by (cases ds) (auto simp: is_digit_def)
  show ?thesis
  proof (cases "hd ds = 48")
    case True
    with ds have "ds = [48]" by simp
    then show ?thesis using fe b by (simp add: parse_number_def)
  next
    case False
    then show ?thesis
      using fe b ds h45 takeWhile_digits [OF ds(2) r] by (simp add: parse_number_def Let_def)
  qed
qed

lemma parse_number_print:
  assumes "\<bar>i\<bar> \<le> 2 ^ 53" and "num_delim r"
  shows "parse_number (num_to_jstr i @ r) = Inr (JNum i, r)"
proof -
  let ?k = "nat \<bar>i\<bar>"
  have "hd (dec_digits ?k) = 48 \<longrightarrow> dec_digits ?k = [48]"
    using dec_digits_hd [of ?k] by (cases "?k = 0") (auto simp: dec_digits_zero)
  moreover have "digits_val (dec_digits ?k) \<le> 2 ^ 53"
    using assms(1) by (simp add: digits_val_dec_digits nat_le_iff)
  ultimately have "parse_number (dec_digits ?k @ r) = Inr (JNum (int ?k), r) \<and>
         parse_number (45 # dec_digits ?k @ r) = Inr (JNum (- int ?k), r)"
    using parse_number_run [OF dec_digits_nonempty dec_digits_digits _ assms(2)]
    by (simp add: digits_val_dec_digits)
  then show ?thesis by (cases "i < 0") (simp_all add: num_to_jstr_def)
qed


lemma val_delim_num: "val_delim r \<Longrightarrow> num_delim r"
  by (auto simp: val_delim_def num_delim_def is_digit_def)

lemma skip_ws_plain: "x \<noteq> [] \<Longrightarrow> \<not> is_json_ws (hd x) \<Longrightarrow> skip_ws (x @ y) = x @ y"
  by (cases x) (simp_all add: skip_ws_def)

lemma num_to_jstr_hd:
  "\<exists>c cs. num_to_jstr i = c # cs \<and> (c = 45 \<or> is_digit c)"
  using dec_digits_nonempty [of "nat \<bar>i\<bar>"] dec_digits_digits [of "nat \<bar>i\<bar>"]
  by (cases "dec_digits (nat \<bar>i\<bar>)") (auto simp: num_to_jstr_def)

lemma json_print_hd:
  "json_print v \<noteq> [] \<and> \<not> is_json_ws (hd (json_print v)) \<and> hd (json_print v) \<noteq> 93 \<and>
   hd (json_print v) \<noteq> 125"
proof (cases v)
  case (JNum i)
  then show ?thesis using num_to_jstr_hd [of i] by (auto simp: is_json_ws_def is_digit_def)
qed (simp_all add: is_json_ws_def json_quote_def)

lemma join_Cons2: "ys \<noteq> [] \<Longrightarrow> join sep (x # ys) = x @ sep @ join sep ys"
  by (cases ys) simp_all

lemma skip_ws_Cons_plain: "\<not> is_json_ws c \<Longrightarrow> skip_ws (c # x) = c # x"
  by (simp add: skip_ws_def)

lemma join_Cons_prefix: "\<exists>t. join sep (x # xs) = x @ t"
  by (cases xs) auto

lemma skip_ws_join_print:
  "xs \<noteq> [] \<Longrightarrow> skip_ws (join sep (map f xs) @ r) = join sep (map f xs) @ r"
    if "\<And>x. f x \<noteq> [] \<and> \<not> is_json_ws (hd (f x))" for f :: "'a \<Rightarrow> jstr"
proof -
  assume "xs \<noteq> []"
  then obtain y ys where xs: "xs = y # ys" by (cases xs) auto
  obtain t where "join sep (map f xs) = f y @ t" using join_Cons_prefix [of sep "f y" "map f ys"] xs by auto
  then show ?thesis using that [of y] skip_ws_plain [of "f y" "t @ r"] by simp
qed

lemma parse_elems_print:
  assumes ih: "\<forall>v\<in>set vs. \<forall>n rest. val_delim rest \<longrightarrow>
                 parse_value n (json_print v @ rest) \<noteq> Inl JOutOfFuel \<longrightarrow>
                 parse_value n (json_print v @ rest) = Inr (v, rest)"
    and ne: "vs \<noteq> []"
    and nf: "parse_elems n (join [44] (map json_print vs) @ 93 # rest) \<noteq> Inl JOutOfFuel"
  shows "parse_elems n (join [44] (map json_print vs) @ 93 # rest) = Inr (vs, rest)"
  using ih ne nf
proof (induction vs arbitrary: n)
  case Nil
  then show ?case by simp
next
  case (Cons v vs)
  obtain m where n: "n = Suc m" using Cons.prems(3) by (cases n) auto
  show ?case
  proof (cases "vs = []")
    case True
    have "parse_value m (json_print v @ 93 # rest) \<noteq> Inl JOutOfFuel"
      using Cons.prems(3) by (auto simp: n True)
    then have "parse_value m (json_print v @ 93 # rest) = Inr (v, 93 # rest)"
      using Cons.prems(1) by (simp add: val_delim_def)
    then show ?thesis by (simp add: n True skip_ws_Cons_plain is_json_ws_def)
  next
    case False
    let ?tail = "join [44] (map json_print vs) @ 93 # rest"
    have j: "join [44] (json_print v # map json_print vs) @ 93 # rest = json_print v @ 44 # ?tail"
      using False by (simp add: join_Cons2)
    have sk: "skip_ws ?tail = ?tail"
      using skip_ws_join_print [OF _ False] json_print_hd by blast
    have "parse_value m (json_print v @ 44 # ?tail) \<noteq> Inl JOutOfFuel"
      using Cons.prems(3) by (auto simp: n j)
    then have pv: "parse_value m (json_print v @ 44 # ?tail) = Inr (v, 44 # ?tail)"
      using Cons.prems(1) by (simp add: val_delim_def)
    have "parse_elems m ?tail \<noteq> Inl JOutOfFuel"
      using Cons.prems(3) pv by (auto simp: n j sk skip_ws_Cons_plain is_json_ws_def jcons_Inl)
    then have "parse_elems m ?tail = Inr (vs, rest)"
      using Cons.IH [OF _ False] Cons.prems(1) by simp
    then show ?thesis using pv by (simp add: n j sk skip_ws_Cons_plain is_json_ws_def jcons_def)
  qed
qed

lemma json_print_JObj: "json_print (JObj kvs) = 123 # join [44] (map member_print kvs) @ [125]"
  by (simp add: member_print_def [abs_def] case_prod_beta')

lemma parse_members_print:
  assumes ih: "\<forall>kv\<in>set kvs. \<forall>n rest. val_delim rest \<longrightarrow>
                 parse_value n (json_print (snd kv) @ rest) \<noteq> Inl JOutOfFuel \<longrightarrow>
                 parse_value n (json_print (snd kv) @ rest) = Inr (snd kv, rest)"
    and ne: "kvs \<noteq> []"
    and nf: "parse_members n (join [44] (map member_print kvs) @ 125 # rest) \<noteq> Inl JOutOfFuel"
  shows "parse_members n (join [44] (map member_print kvs) @ 125 # rest) = Inr (kvs, rest)"
  using ih ne nf
proof (induction kvs arbitrary: n)
  case Nil
  then show ?case by simp
next
  case (Cons kv kvs)
  obtain k v where kv: "kv = (k, v)" by (cases kv)
  obtain m where n: "n = Suc m" using Cons.prems(3) by (cases n) auto
  have pc: "parse_chars (concat (map json_esc k) @ 34 # 58 # x) = Inr (k, 58 # x)" for x
    by (rule parse_chars_quote)
  have sv: "skip_ws (json_print v @ x) = json_print v @ x" for x
    using json_print_hd [of v] by (simp add: skip_ws_plain)
  have mp: "member_print (k, v) @ x = 34 # concat (map json_esc k) @ 34 # 58 # json_print v @ x" for x
    by (simp add: member_print_def json_quote_def)
  show ?case
  proof (cases "kvs = []")
    case True
    have "parse_value m (json_print v @ 125 # rest) \<noteq> Inl JOutOfFuel"
      using Cons.prems(3) by (auto simp: n kv True mp pc sv skip_ws_Cons_plain is_json_ws_def)
    then have pv: "parse_value m (json_print v @ 125 # rest) = Inr (v, 125 # rest)"
      using Cons.prems(1) by (simp add: kv val_delim_def)
    then show ?thesis by (simp add: n kv True mp pc sv skip_ws_Cons_plain is_json_ws_def)
  next
    case False
    let ?tail = "join [44] (map member_print kvs) @ 125 # rest"
    have j: "join [44] (member_print (k, v) # map member_print kvs) @ 125 # rest =
        member_print (k, v) @ 44 # ?tail"
      using False by (simp add: join_Cons2)
    have sk: "skip_ws ?tail = ?tail"
      using skip_ws_join_print [OF _ False, of member_print]
      by (simp add: member_print_def json_quote_def is_json_ws_def)
    have "parse_value m (json_print v @ 44 # ?tail) \<noteq> Inl JOutOfFuel"
      using Cons.prems(3) by (auto simp: n kv j mp pc sv skip_ws_Cons_plain is_json_ws_def)
    then have pv: "parse_value m (json_print v @ 44 # ?tail) = Inr (v, 44 # ?tail)"
      using Cons.prems(1) by (simp add: kv val_delim_def)
    have "parse_members m ?tail \<noteq> Inl JOutOfFuel"
      using Cons.prems(3) pv
      by (auto simp: n kv j mp pc sv sk skip_ws_Cons_plain is_json_ws_def jcons_Inl)
    then have "parse_members m ?tail = Inr (kvs, rest)"
      using Cons.IH [OF _ False] Cons.prems(1) by simp
    then show ?thesis using pv
      by (simp add: n kv j mp pc sv sk skip_ws_Cons_plain is_json_ws_def jcons_def)
  qed
qed


lemma parse_value_print:
  "json_value v \<Longrightarrow> val_delim rest \<Longrightarrow> parse_value n (json_print v @ rest) \<noteq> Inl JOutOfFuel \<Longrightarrow>
   parse_value n (json_print v @ rest) = Inr (v, rest)"
proof (induction v arbitrary: n rest)
  case JUndef
  then show ?case by simp
next
  case JNull
  then show ?case by (cases n) (simp_all add: parse_lit_def)
next
  case (JBool b)
  then show ?case by (cases n) (simp_all add: parse_lit_def)
next
  case (JNum i)
  obtain c cs where p: "num_to_jstr i = c # cs" and c: "c = 45 \<or> is_digit c"
    using num_to_jstr_hd [of i] by blast
  have nc: "c \<noteq> 123 \<and> c \<noteq> 91 \<and> c \<noteq> 34 \<and> c \<noteq> 116 \<and> c \<noteq> 102 \<and> c \<noteq> 110"
    using c by (auto simp: is_digit_def)
  have "parse_number (num_to_jstr i @ rest) = Inr (JNum i, rest)"
    using JNum.prems by (intro parse_number_print) (simp_all add: val_delim_num)
  with JNum.prems p c nc show ?case by (cases n) simp_all
next
  case (JStr s)
  then show ?case by (cases n) (simp_all add: json_quote_def jmap_def parse_chars_quote)
next
  case (JArr vs)
  obtain m where n: "n = Suc m" using JArr.prems(3) by (cases n) auto
  show ?case
  proof (cases "vs = []")
    case True
    then show ?thesis by (simp add: n skip_ws_Cons_plain is_json_ws_def)
  next
    case False
    let ?body = "join [44] (map json_print vs) @ 93 # rest"
    have sk: "skip_ws ?body = ?body"
      using skip_ws_join_print [OF _ False] json_print_hd by blast
    have hd: "\<not> (?body \<noteq> [] \<and> hd ?body = 93)"
    proof -
      obtain w ws where "vs = w # ws" using False by (cases vs) auto
      moreover obtain t where "join [44] (map json_print (w # ws)) = json_print w @ t"
        using join_Cons_prefix by (simp only: list.map) blast
      ultimately show ?thesis using json_print_hd [of w] by simp
    qed
    have nf: "parse_elems m ?body \<noteq> Inl JOutOfFuel"
      using JArr.prems(3) sk hd by (auto simp: n Let_def jmap_Inl)
    have ih: "\<forall>v\<in>set vs. \<forall>n rest. val_delim rest \<longrightarrow>
        parse_value n (json_print v @ rest) \<noteq> Inl JOutOfFuel \<longrightarrow>
        parse_value n (json_print v @ rest) = Inr (v, rest)"
      using JArr.IH JArr.prems(1) by (simp add: list_all_iff)
    show ?thesis
      using parse_elems_print [OF ih False nf] sk hd by (simp add: n Let_def jmap_def)
  qed
next
  case (JObj kvs)
  obtain m where n: "n = Suc m" using JObj.prems(3) by (cases n) auto
  show ?case
  proof (cases "kvs = []")
    case True
    then show ?thesis by (simp add: n skip_ws_Cons_plain is_json_ws_def)
  next
    case False
    let ?body = "join [44] (map member_print kvs) @ 125 # rest"
    have mpe: "(\<lambda>(k, v). json_quote k @ 58 # json_print v) = member_print"
      by (auto simp: member_print_def)
    have mp: "member_print kv \<noteq> [] \<and> \<not> is_json_ws (hd (member_print kv))" for kv
      by (simp add: member_print_def json_quote_def is_json_ws_def)
    have sk: "skip_ws ?body = ?body"
      using skip_ws_join_print [OF _ False, of member_print] mp by blast
    have hd: "\<not> (?body \<noteq> [] \<and> hd ?body = 125)"
    proof -
      obtain w ws where "kvs = w # ws" using False by (cases kvs) auto
      moreover obtain t where "join [44] (map member_print (w # ws)) = member_print w @ t"
        using join_Cons_prefix by (simp only: list.map) blast
      ultimately show ?thesis by (simp add: member_print_def json_quote_def)
    qed
    have nf: "parse_members m ?body \<noteq> Inl JOutOfFuel"
      using JObj.prems(3) sk hd by (auto simp: n Let_def jmap_Inl mpe)
    have ih: "\<forall>kv\<in>set kvs. \<forall>n rest. val_delim rest \<longrightarrow>
        parse_value n (json_print (snd kv) @ rest) \<noteq> Inl JOutOfFuel \<longrightarrow>
        parse_value n (json_print (snd kv) @ rest) = Inr (snd kv, rest)"
      using JObj.IH JObj.prems(1) by (fastforce simp: list_all_iff)
    show ?thesis
      using parse_members_print [OF ih False nf] sk hd by (simp add: n Let_def jmap_def mpe)
  qed
qed

subsection \<open>Properties of \<open>JSON.parse\<close>\<close>

lemma json_parse_fuel: "parse_value (Suc (2 * length s)) (skip_ws s) \<noteq> Inl JOutOfFuel"
  using parse_fuel_enough [of "Suc (2 * length s)"] length_skip_ws [of s] by simp

lemma skip_ws_print: "skip_ws (json_print v) = json_print v" "skip_ws [] = []"
  using skip_ws_plain [of "json_print v" "[]"] json_print_hd [of v] by (simp_all add: skip_ws_def)

text \<open>A printed value is one value with nothing after it, within the fuel \<open>json_parse\<close> gives.\<close>

lemma parse_print_top:
  "json_value v \<Longrightarrow> parse_value (Suc (2 * length (json_print v))) (json_print v) = Inr (v, [])"
  using parse_value_print [of v "[]" "Suc (2 * length (json_print v))"]
    json_parse_fuel [of "json_print v"]
  by (simp add: val_delim_def skip_ws_print del: parse_value.simps)

lemma json_text_parse_print: "json_value v \<Longrightarrow> json_text_parse (json_print v) = Some v"
  using parse_print_top [of v]
  by (simp add: json_text_parse_def json_parse_def skip_ws_print del: parse_value.simps)

text \<open>
  A text that starts with the byte order mark \<open>U+FEFF\<close>, which
  \<open>readFileSync(p, "utf-8")\<close> keeps, is a syntax error: \<open>U+FEFF\<close> is
  not JSON whitespace and starts no value.
\<close>

lemma json_text_parse_bom: "json_text_parse (0xFEFF # t) = None"
  by (simp add: json_text_parse_def json_parse_def skip_ws_Cons_plain is_json_ws_def is_digit_def)

text \<open>
  The parser always decides: the fuel \<open>json_parse\<close> gives never runs
  out, so every text is accepted with a value or rejected with a syntax
  error, or falls outside the model.
\<close>

lemma json_parse_terminates: "json_parse s \<noteq> Inl JOutOfFuel"
  using json_parse_fuel [of s]
  by (auto simp: json_parse_def split: sum.splits prod.splits simp del: parse_value.simps)

text \<open>
  Every value \<open>JSON.parse\<close> returns is a JSON value of the model: no
  \<open>undefined\<close> anywhere and integers a double holds exactly.
\<close>

lemma json_parse_type: "json_parse s = Inr v \<Longrightarrow> json_value v"
proof -
  assume "json_parse s = Inr v"
  then obtain r where "parse_value (Suc (2 * length s)) (skip_ws s) = Inr (v, r)"
    unfolding json_parse_def
    by (auto split: sum.splits prod.splits if_splits simp del: parse_value.simps)
  then show ?thesis using parse_value_type by blast
qed

text \<open>
  C33: printing a JSON value and parsing the text gives the value back.
\<close>

theorem json_parse_roundtrip: "json_value v \<Longrightarrow> json_parse (json_print v) = Inr v"
  using parse_print_top [of v] by (simp add: json_parse_def skip_ws_print del: parse_value.simps)

subsection \<open>Witnesses\<close>

theorem json_parse_roundtrip_witness:
  "json_value (JObj [(js_lit ''id'', JNum (-7)), (js_lit ''t'', JStr [34, 10])]) \<and>
   json_parse (json_print (JObj [(js_lit ''id'', JNum (-7)), (js_lit ''t'', JStr [34, 10])])) =
     Inr (JObj [(js_lit ''id'', JNum (-7)), (js_lit ''t'', JStr [34, 10])])"
proof -
  have v: "json_value (JObj [(js_lit ''id'', JNum (-7)), (js_lit ''t'', JStr [34, 10])])" by simp
  show ?thesis using json_parse_roundtrip [OF v] v by simp
qed

end
