(* ===== verification/FileText.thy ===== *)
theory FileText
  imports UriDecode
begin

text \<open>
  The text coding of the files the script reads and writes. \<open>loadJson\<close>
  reads \<open>questions.json\<close> with \<open>fs.readFileSync(INPUT, "utf-8")\<close> (line 30
  of \<open>src/generate.mjs\<close>), and every page and the sitemap are written with
  \<open>fs.writeFileSync(p, text)\<close> (lines 101 and 110), whose default encoding
  is UTF-8. Both follow the WHATWG UTF-8 coding that Node uses: the encoder
  writes a surrogate pair as one four-byte sequence and an unpaired
  surrogate as \<open>U+FFFD\<close> (\<open>EF BF BD\<close>); the decoder reads maximal
  well-formed prefixes, writes \<open>U+FFFD\<close> for each ill-formed subsequence
  and reads the byte that ended it again, and keeps a byte order mark.
  Bytes are natural numbers below 256. The lemmas show that decoding
  inverts encoding up to the replacement of unpaired surrogates
  (\<open>to_well_formed\<close>, ECMAScript's \<open>String.prototype.toWellFormed\<close>), and
  that a byte order mark is read as \<open>U+FEFF\<close>.
\<close>

subsection \<open>Encoding: \<open>writeFileSync\<close>\<close>

text \<open>The code point written for a single code unit: an unpaired surrogate becomes \<open>U+FFFD\<close>.\<close>

definition unit_scalar :: "cu \<Rightarrow> nat" where
  "unit_scalar c = (if is_high_surrogate c \<or> is_low_surrogate c then 0xFFFD else unat c)"

fun utf8_encode_text :: "jstr \<Rightarrow> nat list" where
  "utf8_encode_text [] = []"
| "utf8_encode_text [c] = utf8_bytes (unit_scalar c)"
| "utf8_encode_text (c # d # cs) =
     (if is_high_surrogate c \<and> is_low_surrogate d
      then utf8_bytes (surrogate_cp c d) @ utf8_encode_text cs
      else utf8_bytes (unit_scalar c) @ utf8_encode_text (d # cs))"

subsection \<open>Decoding: \<open>readFileSync(p, "utf-8")\<close>\<close>

text \<open>
  A lead byte: how many continuation bytes follow, the range of the first
  of them (narrowed after \<open>E0\<close>, \<open>ED\<close>, \<open>F0\<close> and \<open>F4\<close> to exclude overlong
  forms, surrogates and code points beyond \<open>U+10FFFF\<close>), and its payload.
\<close>

definition lead_info :: "nat \<Rightarrow> (nat \<times> nat \<times> nat \<times> nat) option" where
  "lead_info b =
     (if 0xC2 \<le> b \<and> b \<le> 0xDF then Some (1, 0x80, 0xBF, b - 0xC0)
      else if 0xE0 \<le> b \<and> b \<le> 0xEF then
        Some (2, if b = 0xE0 then 0xA0 else 0x80, if b = 0xED then 0x9F else 0xBF, b - 0xE0)
      else if 0xF0 \<le> b \<and> b \<le> 0xF4 then
        Some (3, if b = 0xF0 then 0x90 else 0x80, if b = 0xF4 then 0x8F else 0xBF, b - 0xF0)
      else None)"

text \<open>
  The continuation bytes: the code point, or \<open>None\<close> at the end of the input
  or at a byte out of range, which is left unread.
\<close>

fun take_cont :: "nat \<Rightarrow> nat \<Rightarrow> nat \<Rightarrow> nat \<Rightarrow> nat list \<Rightarrow> nat option \<times> nat list" where
  "take_cont 0 lo hi cp bs = (Some cp, bs)"
| "take_cont (Suc n) lo hi cp [] = (None, [])"
| "take_cont (Suc n) lo hi cp (b # bs) =
     (if lo \<le> b \<and> b \<le> hi then take_cont n 0x80 0xBF (cp * 64 + (b - 0x80)) bs
      else (None, b # bs))"

lemma take_cont_rest: "take_cont n lo hi cp bs = (r, rest) \<Longrightarrow> length rest \<le> length bs"
  by (induction n lo hi cp bs arbitrary: r rule: take_cont.induct) (auto split: if_splits)

function utf8_dec :: "nat list \<Rightarrow> nat list" where
  "utf8_dec [] = []"
| "utf8_dec (b # bs) =
     (if b < 0x80 then b # utf8_dec bs
      else case lead_info b of
        None \<Rightarrow> 0xFFFD # utf8_dec bs
      | Some (n, lo, hi, cp) \<Rightarrow>
          (case take_cont n lo hi cp bs of
             (Some c, rest) \<Rightarrow> c # utf8_dec rest
           | (None, rest) \<Rightarrow> 0xFFFD # utf8_dec rest))"
  by pat_completeness auto
termination
  by (relation "measure length") (auto dest!: sym [THEN take_cont_rest] simp: le_imp_less_Suc)

definition utf8_decode_text :: "nat list \<Rightarrow> jstr" where
  "utf8_decode_text bs = concat (map utf16_of (utf8_dec bs))"

subsection \<open>The reference: unpaired surrogates replaced\<close>

fun to_well_formed :: "jstr \<Rightarrow> jstr" where
  "to_well_formed [] = []"
| "to_well_formed [c] = [of_nat (unit_scalar c)]"
| "to_well_formed (c # d # cs) =
     (if is_high_surrogate c \<and> is_low_surrogate d then c # d # to_well_formed cs
      else of_nat (unit_scalar c) # to_well_formed (d # cs))"

subsection \<open>Lemmas\<close>

lemma mult_bound_ge: "k * m \<le> b * m + c \<Longrightarrow> c < m \<Longrightarrow> (k :: nat) \<le> b"
proof (rule ccontr)
  assume km: "k * m \<le> b * m + c" and c: "c < m" and "\<not> k \<le> b"
  then have "Suc b * m \<le> k * m" by (intro mult_le_mono1) simp
  with km c show False by simp
qed

lemma mult_bound_lt: "b * m + c < k * m \<Longrightarrow> (b :: nat) < k"
  by (metis add_lessD1 mult_less_cancel2)

text \<open>Well-formed continuation bytes are all read, and their payloads accumulated.\<close>

lemma take_cont_conts:
  "\<forall>c\<in>set cs. 0x80 \<le> c \<and> c \<le> 0xBF \<Longrightarrow>
   take_cont (length cs) 0x80 0xBF x (cs @ bs) = (Some (foldl (\<lambda>a c. a * 64 + (c - 0x80)) x cs), bs)"
  by (induction cs arbitrary: x) simp_all

lemma utf8_dec_lead:
  assumes "lead_info b = Some (Suc (length cs), lo, hi, x)" and "lo \<le> c1" "c1 \<le> hi"
    and "\<forall>c\<in>set cs. 0x80 \<le> c \<and> c \<le> 0xBF" and "0x80 \<le> b"
  shows "utf8_dec (b # c1 # cs @ bs) =
           foldl (\<lambda>a c. a * 64 + (c - 0x80)) (x * 64 + (c1 - 0x80)) cs # utf8_dec bs"
  using assms take_cont_conts [OF assms(4), of "x * 64 + (c1 - 0x80)" bs] by simp

text \<open>Decoding the bytes of one scalar value (a code point that is not a surrogate).\<close>

lemma utf8_dec_bytes:
  assumes cp: "cp < 0x110000" and ns: "\<not> (0xD800 \<le> cp \<and> cp \<le> 0xDFFF)"
  shows "utf8_dec (utf8_bytes cp @ bs) = cp # utf8_dec bs"
proof -
  consider (one) "cp < 0x80" | (two) "0x80 \<le> cp" "cp < 0x800" | (three) "0x800 \<le> cp" "cp < 0x10000"
    | (four) "0x10000 \<le> cp" by linarith
  then show ?thesis
  proof cases
    case one
    then show ?thesis by (simp add: utf8_bytes_def)
  next
    case two
    define a c where "a = cp div 64" and "c = cp mod 64"
    have cpa: "cp = a * 64 + c" "c < 64" by (simp_all add: a_def c_def)
    have "2 \<le> a" using two cpa by (intro mult_bound_ge [of 2 64 a c]) simp_all
    moreover have "a < 32" using two cpa by (intro mult_bound_lt [of a 64 c]) simp
    moreover have "utf8_bytes cp = [0xC0 + a, 0x80 + c]"
      using two by (simp add: utf8_bytes_def a_def c_def)
    ultimately show ?thesis
      using utf8_dec_lead [of "0xC0 + a" "[]" "0x80" "0xBF" a "0x80 + c" bs] cpa
      by (simp add: lead_info_def)
  next
    case three
    define a b c where "a = cp div 4096" and "b = cp div 64 mod 64" and "c = cp mod 64"
    have cpa: "cp = a * 4096 + b * 64 + c" "b < 64" "c < 64"
      using three_units [of cp] by (simp_all add: a_def b_def c_def)
    have a16: "a < 16" using three cpa by (intro mult_bound_lt [of a 4096 "b * 64 + c"]) simp
    have e0: "32 \<le> b" if "a = 0" using three cpa that by (intro mult_bound_ge [of 32 64 b c]) simp_all
    have ed: "b < 32" if "a = 13" using three cpa ns that by (intro mult_bound_lt [of b 64 c]) simp
    have u: "utf8_bytes cp = [0xE0 + a, 0x80 + b, 0x80 + c]"
      using three by (simp add: utf8_bytes_def a_def b_def c_def)
    have "lead_info (0xE0 + a) =
        Some (Suc (length [0x80 + c]), if a = 0 then 0xA0 else 0x80, if a = 13 then 0x9F else 0xBF, a)"
      using a16 by (simp add: lead_info_def)
    then have "utf8_dec (utf8_bytes cp @ bs) = ((a * 64 + b) * 64 + c) # utf8_dec bs"
      using utf8_dec_lead [of "0xE0 + a" "[0x80 + c]" _ _ a "0x80 + b" bs] cpa e0 ed u
      by (auto split: if_splits)
    then show ?thesis using cpa by (simp add: algebra_simps)
  next
    case four
    define a b c d where "a = cp div 262144" and "b = cp div 4096 mod 64" and "c = cp div 64 mod 64"
      and "d = cp mod 64"
    have cpa: "cp = a * 262144 + b * 4096 + c * 64 + d" "b < 64" "c < 64" "d < 64"
      using four_units [of cp] by (simp_all add: a_def b_def c_def d_def)
    have a5: "a < 5" using cp cpa by (intro mult_bound_lt [of a 262144 "b * 4096 + c * 64 + d"]) simp
    have f0: "16 \<le> b" if "a = 0" using four cpa that
      by (intro mult_bound_ge [of 16 4096 b "c * 64 + d"]) simp_all
    have f4: "b < 16" if "a = 4" using cp cpa that by (intro mult_bound_lt [of b 4096 "c * 64 + d"]) simp
    have u: "utf8_bytes cp = [0xF0 + a, 0x80 + b, 0x80 + c, 0x80 + d]"
      using four by (simp add: utf8_bytes_def a_def b_def c_def d_def)
    have "lead_info (0xF0 + a) =
        Some (Suc (length [0x80 + c, 0x80 + d]), if a = 0 then 0x90 else 0x80, if a = 4 then 0x8F else 0xBF, a)"
      using a5 by (simp add: lead_info_def)
    then have "utf8_dec (utf8_bytes cp @ bs) = (((a * 64 + b) * 64 + c) * 64 + d) # utf8_dec bs"
      using utf8_dec_lead [of "0xF0 + a" "[0x80 + c, 0x80 + d]" _ _ a "0x80 + b" bs] cpa f0 f4 u
      by (auto split: if_splits)
    then show ?thesis using cpa by (simp add: algebra_simps)
  qed
qed

text \<open>The code point a single code unit is written as is a scalar value below \<open>U+10000\<close>.\<close>

lemma unit_scalar_ok: "unit_scalar c < 0x10000 \<and> \<not> (0xD800 \<le> unit_scalar c \<and> unit_scalar c \<le> 0xDFFF)"
  using unat_cu_bound [of c] unit_not_surrogate_range [of c] by (simp add: unit_scalar_def)

lemma utf16_of_unit_scalar: "utf16_of (unit_scalar c) = [of_nat (unit_scalar c)]"
  using unit_scalar_ok [of c] by (simp add: utf16_of_def)

lemma decode_text_bytes:
  "cp < 0x110000 \<Longrightarrow> \<not> (0xD800 \<le> cp \<and> cp \<le> 0xDFFF) \<Longrightarrow>
   utf8_decode_text (utf8_bytes cp @ bs) = utf16_of cp @ utf8_decode_text bs"
  by (simp add: utf8_decode_text_def utf8_dec_bytes)

lemma decode_text_unit: "utf8_decode_text (utf8_bytes (unit_scalar c) @ bs) = of_nat (unit_scalar c) # utf8_decode_text bs"
  using unit_scalar_ok [of c] by (simp add: decode_text_bytes utf16_of_unit_scalar)

lemma decode_text_pair:
  "is_high_surrogate c \<Longrightarrow> is_low_surrogate d \<Longrightarrow>
   utf8_decode_text (utf8_bytes (surrogate_cp c d) @ bs) = c # d # utf8_decode_text bs"
  using surrogate_cp_bound [of c d] surrogate_cp_range [of c d]
  by (simp add: decode_text_bytes utf16_of_pair)

lemma to_well_formed_wf: "well_formed_utf16 s \<Longrightarrow> to_well_formed s = s"
proof (induction s rule: to_well_formed.induct)
  case 1
  then show ?case by simp
next
  case (2 c)
  then have "unit_scalar c = unat c"
    by (simp add: unit_scalar_def split: if_splits)
  then show ?case by simp
next
  case (3 c d cs)
  show ?case
  proof (cases "is_high_surrogate c")
    case True
    with "3.prems" have "is_low_surrogate d" "well_formed_utf16 cs" by simp_all
    with True "3.IH"(1) show ?thesis by simp
  next
    case False
    with "3.prems" have "\<not> is_low_surrogate c" "well_formed_utf16 (d # cs)" by simp_all
    moreover from this False have "unit_scalar c = unat c" by (simp add: unit_scalar_def)
    ultimately show ?thesis using False "3.IH"(2) by simp
  qed
qed

text \<open>A string that does not end in a high surrogate is encoded independently of what follows.\<close>

lemma utf8_encode_text_append:
  "xs = [] \<or> \<not> is_high_surrogate (last xs) \<Longrightarrow>
   utf8_encode_text (xs @ ys) = utf8_encode_text xs @ utf8_encode_text ys"
proof (induction xs rule: utf8_encode_text.induct)
  case 1
  then show ?case by simp
next
  case (2 c)
  then show ?case by (cases ys) simp_all
next
  case (3 c d cs)
  then show ?case by (cases cs) (auto simp: is_high_surrogate_def is_low_surrogate_def)
qed

lemma ascii_not_surrogate: "c < 0x80 \<Longrightarrow> \<not> is_high_surrogate c \<and> \<not> is_low_surrogate c"
  by (auto simp: is_high_surrogate_def is_low_surrogate_def word_le_nat_alt word_less_nat_alt)

text \<open>ASCII text is written byte for byte.\<close>

lemma utf8_encode_ascii: "\<forall>c\<in>set xs. c < 0x80 \<Longrightarrow> utf8_encode_text xs = map unat xs"
proof (induction xs rule: utf8_encode_text.induct)
  case (2 c)
  then have "unit_scalar c = unat c" "unat c < 0x80"
    using ascii_not_surrogate [of c] by (simp_all add: unit_scalar_def word_less_nat_alt)
  then show ?case by (simp add: utf8_bytes_def)
next
  case (3 c d cs)
  then have "unit_scalar c = unat c" "unat c < 0x80" "\<not> is_high_surrogate c"
    using ascii_not_surrogate [of c] by (simp_all add: unit_scalar_def word_less_nat_alt)
  with 3 show ?case by (simp add: utf8_bytes_def)
qed simp

lemma utf8_decode_bom: "utf8_decode_text (0xEF # 0xBB # 0xBF # bs) = 0xFEFF # utf8_decode_text bs"
  using decode_text_bytes [of "0xFEFF" bs] by (simp add: utf8_bytes_def utf16_of_def)

subsection \<open>Reading back what was written\<close>

text \<open>
  C8: reading a written file gives back the text with every unpaired
  surrogate replaced by \<open>U+FFFD\<close>; a well-formed text comes back unchanged.
\<close>

theorem utf8_text_roundtrip:
  "utf8_decode_text (utf8_encode_text s) = to_well_formed s \<and>
   (well_formed_utf16 s \<longrightarrow> utf8_decode_text (utf8_encode_text s) = s)"
proof -
  have "utf8_decode_text (utf8_encode_text s) = to_well_formed s"
  proof (induction s rule: utf8_encode_text.induct)
    case 1
    then show ?case by (simp add: utf8_decode_text_def)
  next
    case (2 c)
    then show ?case using decode_text_unit [of c "[]"] by (simp add: utf8_decode_text_def)
  next
    case (3 c d cs)
    then show ?case by (simp add: decode_text_pair decode_text_unit)
  qed
  then show ?thesis using to_well_formed_wf by simp
qed

theorem utf8_text_roundtrip_witness:
  "utf8_decode_text (utf8_encode_text [0x61, 0xD83D, 0xDE00]) = [0x61, 0xD83D, 0xDE00] \<and>
   utf8_decode_text (utf8_encode_text [0xD83D, 0x61]) = [0xFFFD, 0x61]"
proof -
  have w: "well_formed_utf16 [0x61, 0xD83D, 0xDE00]"
    by (simp add: is_high_surrogate_def is_low_surrogate_def)
  have t: "to_well_formed [0xD83D, 0x61] = [0xFFFD, 0x61]"
    by (simp add: unit_scalar_def is_high_surrogate_def is_low_surrogate_def)
  have a: "utf8_decode_text (utf8_encode_text [0x61, 0xD83D, 0xDE00]) = [0x61, 0xD83D, 0xDE00]"
    using utf8_text_roundtrip [of "[0x61, 0xD83D, 0xDE00]"] w by blast
  have b: "utf8_decode_text (utf8_encode_text [0xD83D, 0x61]) = to_well_formed [0xD83D, 0x61]"
    using utf8_text_roundtrip [of "[0xD83D, 0x61]"] by blast
  show ?thesis by (simp only: a b t simp_thms)
qed

end
