(* ===== verification/Spec2Isabelle.thy ===== *)
theory Spec2Isabelle
  imports Generate UriDecode JsonParse FileText
begin

text \<open>
  \<^bold>\<open>A verification model of \<open>src/generate.mjs\<close> (seikei-soudan).\<close>

  The program is one Node script. \<open>run()\<close> creates the output root
  (\<open>ensureDir\<close>), reads and parses \<open>questions.json\<close> (\<open>loadJson\<close>), turns
  every array element into a record \<open>{id, title, body}\<close> or drops it (the
  \<open>map\<close>/\<open>filter\<close> of lines 79--93), creates \<open>q/\<close>, renders each record
  with \<open>pageHtml\<close> (which calls \<open>esc\<close>, \<open>clip\<close> and
  \<open>encodeURIComponent\<close>) and writes it to \<open>q/<id>.html\<close>, then writes
  \<open>sitemap.xml\<close> and prints a summary. The parts only call one another; the
  shared state is the file system.

  \<^bold>\<open>Theories and what they model.\<close>
  \<^item> \<open>Prelude\<close>: JavaScript strings as lists of UTF-16 code units
    (\<open>16 word\<close>), the error type (one constructor per uncaught exception,
    \<open>TypeError\<close> included), list
    helpers (\<open>somes\<close>, \<open>join\<close> for \<open>Array.prototype.join\<close>) and UTF-16
    well-formedness.
  \<^item> \<open>JsValue\<close>: the values \<open>JSON.parse\<close> yields plus \<open>undefined\<close>;
    truthiness, property access, \<open>||\<close> and \<open>String(v)\<close> (ECMAScript
    semantics the script relies on; not code of the repository).
    \<open>String(v)\<close> throws \<open>TypeError\<close> on an object with an own
    \<open>toString\<close> member, which \<open>JSON.parse\<close> can produce and which is not
    callable; \<open>to_string_ok\<close> is the condition under which it returns, and
    \<open>js_string\<close> is its result then.
  \<^item> \<open>Escape\<close>: \<open>esc\<close> (lines 8--15) as the five \<open>replaceAll\<close> calls in
    source order. Lemmas: equivalence with a one-pass escape (C7), no
    \<open>< > " '\<close> in the output, HTML decoding inverts it (C9).
  \<^item> \<open>Clip\<close>: \<open>clip\<close> (lines 17--20): \<open>\s+\<close> collapse, \<open>trim\<close>, \<open>slice\<close>
    and the ellipsis. Lemmas: length bound (C12), whitespace normalisation (C13),
    cut and marked when long (C14); against
    the specification's reading, \<open>clip\<close> is the text's words
    (\<open>ws_words\<close>) joined by single spaces, cut and marked (C26).
  \<^item> \<open>UriEncode\<close>: \<open>encodeURIComponent\<close> after the ECMAScript Encode
    operation (UTF-8, upper-case \<open>%XX\<close>, \<open>URIError\<close> on unpaired
    surrogates). Lemmas: the only error is \<open>URIError\<close>, exactly on
    ill-formed UTF-16 (C10); output alphabet (C18).
  \<^item> \<open>UriDecode\<close>: \<open>decodeURIComponent\<close> after the ECMAScript Decode
    operation, as the reference a reader of the canonical URL applies (the
    script does not call it). Lemmas: decoding inverts the encoding on every
    well-formed string (C24), so the encoding is injective.
  \<^item> \<open>Normalize\<close>: the record normalisation of \<open>run\<close> (lines 79--93).
    Lemmas: survivors satisfy the filter (C3), soft-deleted elements vanish (C4), the two record shapes
    with string fields (C17), the outer \<open>deleted\<close> flag is not read when
    \<open>data\<close> is truthy (C22).
  \<^item> \<open>Page\<close>: \<open>pageHtml\<close> (lines 36--72), its template copied piece by piece.
    Its conversions run in source order: \<open>String()\<close> of the title, the
    body and the id, then the percent-encoding of the id, so the page fails
    with \<open>TypeError\<close> unless the record is \<open>renderable\<close>, and with
    \<open>URIError\<close> on an ill-formed id. Lemmas: the page's \<open>< > "\<close> are
    exactly the template's (C2), the page exists iff the record is
    renderable and its id well-formed UTF-16, with \<open>TypeError\<close> or
    \<open>URIError\<close> otherwise (C11).
  \<^item> \<open>Generate\<close>: \<open>ensureDir\<close>, \<open>loadJson\<close>, the write loop, the sitemap and
    \<open>run\<close> over a world of directories, files and printed lines; \<open>JSON.parse\<close>
    and \<open>process.cwd()\<close> are parameters (the root theory instantiates the
    first with \<open>json_text_parse\<close>). \<open>write_file\<close> throws
    \<open>TypeError\<close> on a path with the code unit U+0000 (\<open>path_ok\<close>), as
    \<open>writeFileSync\<close> does. Lemmas: load failures write
    nothing (C5, C6), a successful run's files and output (C1), sitemap
    cardinality (C15), one file per distinct id (C16), the sitemap URL is
    the canonical URL only for ids of unreserved characters (C20), records
    with equal id strings share a page file (C21), a record that cannot be
    rendered stops the loop with its error after the earlier pages and
    before the sitemap (C27), a page file always ends in \<open>.html\<close> (C28),
    an id of \<open>../\<close> segments moves the page up the directory tree (C29),
    the sitemap is not XML-escaped (C30), no run changes
    \<open>questions.json\<close> (C31), an id holding U+0000 renders but its write
    throws \<open>TypeError\<close> (C34).
  \<^item> \<open>JsonParse\<close>: \<open>JSON.parse\<close>, which \<open>loadJson\<close> applies to the text
    of \<open>questions.json\<close> (line 31), as a recursive-descent parser over code
    units after ECMA-404 (\<open>parse_value\<close>, \<open>parse_elems\<close>,
    \<open>parse_members\<close>, \<open>parse_chars\<close>, \<open>parse_number\<close>), and a printer
    \<open>json_print\<close> in the manner of \<open>JSON.stringify\<close>. Lemmas: the fuel
    given always suffices (\<open>json_parse_terminates\<close>), every parsed value
    is a JSON value of the model (\<open>json_parse_type\<close>), parsing inverts
    printing (C33).
  \<^item> \<open>FileText\<close>: the UTF-8 coding of file contents, \<open>readFileSync(p,
    "utf-8")\<close> (line 30) and \<open>writeFileSync\<close> (lines 101, 110), after the
    WHATWG encoder and decoder Node uses (\<open>utf8_encode_text\<close>,
    \<open>utf8_dec\<close> with \<open>lead_info\<close> and \<open>take_cont\<close>). The world keeps
    file contents as strings; these functions give the bytes on disk.
    Lemmas: reading a written file gives the text with unpaired surrogates
    replaced by \<open>U+FFFD\<close>, and a well-formed text unchanged (C8); a byte
    order mark decodes to \<open>U+FEFF\<close>.
  \<^item> This theory: the parser and the run composed into the script,
    \<open>generate\<close> (the call \<open>run()\<close> of line 115, with \<open>ROOT\<close> and
    \<open>OUT_DIR\<close> both the working directory, lines 4--6). The specification's
    end-to-end example, evaluated from the file's text (C19); the canonical
    URL written into a page decodes to the name of the file the page is
    written to (C25); a file holding printed JSON is loaded as its value, so
    the run's claims on a parsed array hold for the text
    (\<open>run_parses_printed_input\<close>); a file
    whose bytes start with a byte order mark fails with \<open>ParseError\<close>
    (C32); a description cut inside a surrogate pair is written to the page
    file as the bytes of \<open>U+FFFD\<close> (C23).

  \<^bold>\<open>Choices.\<close> Strings are UTF-16 code-unit lists because \<open>length\<close>,
  \<open>slice\<close> and \<open>encodeURIComponent\<close> work on code units; numbers are
  integers; objects are association lists searched from the end (the last
  duplicate key wins, as in \<open>JSON.parse\<close>). Every loop of the script
  runs over a finite list and is structural recursion, and the two scanners
  (\<open>collapse_ws\<close>, \<open>replace_all\<close>) terminate by the length of their
  input, as do the reference definitions \<open>ws_words\<close> and
  \<open>decode_uri_component\<close> (each step consumes at least one code unit).
  Only the JSON parser needs fuel, because its three parsers call one another
  on nested values: \<open>json_parse s\<close> gives \<open>1 + 2 * length s\<close>. That is
  enough because every call either consumes a code unit or is the single
  call from a bracket, a comma or a colon to the value after it, so at most
  two units of fuel are spent per code unit consumed (\<open>parse_fuel_enough\<close>);
  running out is the value \<open>JOutOfFuel\<close>, which
  \<open>json_parse_terminates\<close> shows never occurs.

  \<^bold>\<open>Not modelled.\<close> Numbers with a fraction or an exponent, and
  integers beyond \<open>2^53\<close>, in \<open>JSON.parse\<close>: the model has integers
  only, so such a text is \<open>JUnsupported\<close> and the run reads it as a parse
  failure (the script would accept it; the records the specification
  describes carry strings). The world's files hold strings, not bytes: the
  UTF-8 coding of \<open>FileText\<close> is applied where a claim is about bytes (C23,
  C32) rather than threaded through every file operation: the input is the
  string \<open>utf8_decode_text\<close> gives for its bytes, and a written string
  reads back as its \<open>to_well_formed\<close> (C8). Also not modelled:
  \<open>console.log\<close> beyond the printed line, Windows
  paths, symbolic links and I/O failures other than a missing parent
  directory, a file in the place of a directory and a directory in the place
  of a file; non-integer numbers in \<open>String(v)\<close>. \<open>num_to_jstr\<close>
  prints every digit of an integer, while \<open>String(v)\<close> switches to
  exponent notation from \<open>10^21\<close> on (\<open>1e+21\<close>); the modelled
  \<open>JSON.parse\<close> rejects integers beyond \<open>2^53\<close>, so only an instance
  of the parser parameter of \<open>run\<close> that returns such an integer reaches
  that difference, and no claim depends on it.

  \<^bold>\<open>Plan for later work.\<close> Numbers as IEEE doubles in \<open>JSON.parse\<close>
  and \<open>String(v)\<close>, so that fractional ids are modelled too.
\<close>

text \<open>The script: \<open>run()\<close> in the working directory, with the modelled \<open>JSON.parse\<close>.\<close>

definition generate :: "jstr list \<Rightarrow> world \<Rightarrow> (error + unit) \<times> world" where
  "generate cwd w = run json_text_parse cwd w"

definition example_world :: world where
  "example_world =
     \<lparr>dirs = {}, files = [[js_lit ''srv'', input_name] \<mapsto> json_print (JArr [example_record])], stdout = []\<rparr>"

definition bom_world :: world where
  "bom_world =
     \<lparr>dirs = {},
      files = [[js_lit ''srv'', input_name] \<mapsto>
                 utf8_decode_text (0xEF # 0xBB # 0xBF # utf8_encode_text (json_print (JArr [example_record])))],
      stdout = []\<rparr>"

text \<open>A record whose body is 119 letters and an emoji (a surrogate pair).\<close>

definition emoji_question :: question where
  "emoji_question =
     \<lparr>qid = JStr (js_lit ''e''), qtitle = JStr (js_lit ''T''), qbody = JStr (replicate 119 97 @ [0xD83D, 0xDE00])\<rparr>"

lemma encode_example_id: "encode_uri_component (js_lit ''abc'') = Inr (js_lit ''abc'')"
  by (simp add: uri_unreserved_def)

lemma page_html_example: "\<exists>h. page_html example_question = Inr h"
  using page_html_Inr [of example_question] encode_example_id
  by (simp add: example_question_def renderable_def)

lemma example_value: "json_value (JArr [example_record])"
  by (simp add: example_record_def)

lemma example_input:
  "files example_world (input_path [js_lit ''srv'']) = Some (json_print (JArr [example_record]))"
  by (simp add: example_world_def input_path_def)

lemma run_example_parsed:
  "run json_text_parse [js_lit ''srv''] example_world =
     run (\<lambda>_. Some (JArr [example_record])) [js_lit ''srv''] example_world"
  by (rule run_parse_congr [OF example_input]) (rule json_text_parse_print [OF example_value])

lemma run_example:
  "run json_text_parse [js_lit ''srv''] example_world =
     (Inr (), \<lparr>dirs = set (ancestors [js_lit ''srv'']) \<union> set (ancestors [js_lit ''srv'', q_name]),
               files = [[js_lit ''srv'', input_name] \<mapsto> json_print (JArr [example_record]),
                        [js_lit ''srv'', q_name, js_lit ''abc.html''] \<mapsto> page_of example_question,
                        [js_lit ''srv'', sitemap_name] \<mapsto> sitemap_xml [example_question]],
               stdout = [summary_line 1 [js_lit ''srv'']]\<rparr>)"
proof -
  obtain h where h: "page_html example_question = Inr h" using page_html_example by blast
  have pf: "page_file [js_lit ''srv'', q_name] example_question = [js_lit ''srv'', q_name, js_lit ''abc.html'']"
    by (simp add: page_file_plain example_question_def)
  have ok: "path_ok [js_lit ''srv'', sitemap_name]" "path_ok [js_lit ''srv'', q_name, js_lit ''abc.html'']"
    by (simp_all add: path_ok_def sitemap_name_def q_name_def)
  show ?thesis unfolding run_example_parsed
    using ok by (simp add: run_def example_world_def ensure_dir_def ancestors_def load_json_def input_path_def
        normalize_example Let_def write_file_def pf [simplified] h page_of_def)
qed

text \<open>
  C19: the specification's end-to-end example. Run in \<open>/srv\<close> on a
  \<open>questions.json\<close> holding the JSON text of the one
  record with id \<open>abc\<close>, title \<open>U+9F3B U+306E U+76F8 U+8AC7 ("consultation about the nose")\<close> and a Japanese body, the script
  succeeds, writes exactly \<open>q/abc.html\<close> and \<open>sitemap.xml\<close>, prints one
  summary line; the sitemap holds the single entry
  \<open>https://seikei-qa.github.io/seikei-soudan/q/abc.html\<close>, and the title shown
  in the page is the bare title (the site name is appended only inside
  \<open><title>\<close>).
\<close>

theorem end_to_end_example:
  \<open>generate [js_lit ''srv''] example_world =
     (Inr (), \<lparr>dirs = set (ancestors [js_lit ''srv'']) \<union> set (ancestors [js_lit ''srv'', q_name]),
               files = [[js_lit ''srv'', input_name] \<mapsto> json_print (JArr [example_record]),
                        [js_lit ''srv'', q_name, js_lit ''abc.html''] \<mapsto> page_of example_question,
                        [js_lit ''srv'', sitemap_name] \<mapsto> sitemap_xml [example_question]],
               stdout = [summary_line 1 [js_lit ''srv'']]\<rparr>) \<and>
   sitemap_xml [example_question] =
     js_lit ''<?xml version="1.0" encoding="UTF-8"?>'' @ [cu_newline] @
     js_lit ''<urlset xmlns="http://www.sitemaps.org/schemas/sitemap/0.9">'' @ [cu_newline] @
     js_lit ''  <url><loc>https://seikei-qa.github.io/seikei-soudan/q/abc.html</loc></url>'' @
     [cu_newline] @ js_lit ''</urlset>'' \<and>
   page_title example_question = [0x9F3B, 0x306E, 0x76F8, 0x8AC7]\<close>
proof -
  have \<open>sitemap_xml [example_question] =
     js_lit ''<?xml version="1.0" encoding="UTF-8"?>'' @ [cu_newline] @
     js_lit ''<urlset xmlns="http://www.sitemaps.org/schemas/sitemap/0.9">'' @ [cu_newline] @
     js_lit ''  <url><loc>https://seikei-qa.github.io/seikei-soudan/q/abc.html</loc></url>'' @
     [cu_newline] @ js_lit ''</urlset>''\<close>
    by (simp add: sitemap_xml_def sitemap_entry_def sitemap_url_def example_question_def)
  moreover have "page_title example_question = [0x9F3B, 0x306E, 0x76F8, 0x8AC7]"
    by (simp add: page_title_def esc_def example_question_def html_escape_Cons esc_char_def)
  ultimately show ?thesis using run_example by (simp add: generate_def)
qed

lemma html_unreserved: "\<forall>c\<in>set (js_lit ''.html''). uri_unreserved c"
  by (simp add: uri_unreserved_def)

text \<open>
  C25: the canonical URL of a page names the file the page is written to:
  the page contains \<open>canonical_url enc\<close>, and decoding the URL's last segment
  \<open>enc.html\<close> gives the last segment of \<open>page_file\<close>, for an id without \<open>/\<close>.
\<close>

theorem canonical_url_names_page_file:
  "cu_slash \<notin> set (js_string (qid q)) \<Longrightarrow> page_html q = Inr h \<Longrightarrow>
   \<exists>enc pre post. h = pre @ canonical_url enc @ post \<and>
     decode_uri_component (enc @ js_lit ''.html'') = Inr (last (page_file qdir q))"
proof -
  assume ns: "cu_slash \<notin> set (js_string (qid q))" and h: "page_html q = Inr h"
  have r: "renderable q" using h page_html_TypeError by (cases "renderable q") auto
  obtain enc where e: "encode_uri_component (js_string (qid q)) = Inr enc"
    using h page_html_Inl [OF r] by (cases "encode_uri_component (js_string (qid q))") fastforce+
  have "encode_uri_component (js_string (qid q) @ js_lit ''.html'') = Inr (enc @ js_lit ''.html'')"
    using encode_append_unreserved [OF html_unreserved e] .
  then have d: "decode_uri_component (enc @ js_lit ''.html'') = Inr (js_string (qid q) @ js_lit ''.html'')"
    by (rule decode_encode)
  define pre where "pre = page_tpl0 @ page_title q @ page_tpl1 @ page_desc q @ page_tpl2"
  define post where "post = page_tpl3 @ page_title q @ page_tpl4 @ page_desc q @ page_tpl5 @
          canonical_url enc @ page_tpl6 @ page_title q @ page_tpl7 @ esc (js_or (qbody q) (JStr [])) @
          page_tpl8 @ enc @ page_tpl9"
  have hh: "h = pre @ canonical_url enc @ post"
    using h page_html_Inr [OF r e] by (simp add: pre_def post_def)
  have "decode_uri_component (enc @ js_lit ''.html'') = Inr (last (page_file qdir q))"
    using d page_file_plain [OF ns, of qdir] by simp
  with hh show ?thesis by blast
qed

theorem canonical_url_names_page_file_witness:
  "cu_slash \<notin> set (js_string (qid example_question)) \<and> (\<exists>h. page_html example_question = Inr h) \<and>
   (\<exists>enc. decode_uri_component (enc @ js_lit ''.html'') = Inr (js_lit ''abc.html''))"
proof -
  have ns: "cu_slash \<notin> set (js_string (qid example_question))" by (simp add: example_question_def)
  obtain h where h: "page_html example_question = Inr h" using page_html_example by blast
  have pf: "last (page_file [js_lit ''srv'', q_name] example_question) = js_lit ''abc.html''"
    by (simp add: page_file_plain example_question_def)
  show ?thesis
    using canonical_url_names_page_file [OF ns h, of "[js_lit ''srv'', q_name]"] ns h pf by auto
qed

text \<open>
  The loader parses what a JSON printer writes: on a \<open>questions.json\<close>
  holding the printed text of an array of JSON values, the run with the
  modelled \<open>JSON.parse\<close> is the run on that array, so the claims stated
  for a parsed array (C1, C15, C16, C27) hold for the file's text.
\<close>

lemma run_parses_printed_input:
  "json_value (JArr raw) \<Longrightarrow> files w (input_path root) = Some (json_print (JArr raw)) \<Longrightarrow>
   run json_text_parse root w = run (\<lambda>_. Some (JArr raw)) root w"
  using run_parse_congr [of w root "json_print (JArr raw)" json_text_parse "\<lambda>_. Some (JArr raw)"]
    json_text_parse_print [of "JArr raw"] by simp

text \<open>
  C32: a \<open>questions.json\<close> saved with a UTF-8 byte order mark (the bytes
  \<open>EF BB BF\<close>) fails: \<open>readFileSync(p, "utf-8")\<close> decodes the mark to
  \<open>U+FEFF\<close> and keeps it, and \<open>JSON.parse\<close> rejects it, so the run stops
  with \<open>ParseError\<close> after creating the output root, whatever bytes follow.
\<close>

theorem run_bom_input:
  assumes "\<forall>a\<in>set (ancestors root). files w a = None"
    and "files w (input_path root) = Some (utf8_decode_text (0xEF # 0xBB # 0xBF # bs))"
  shows "generate root w = (Inl ParseError, w\<lparr>dirs := dirs w \<union> set (ancestors root)\<rparr>)"
proof -
  have "files w (input_path root) = Some (0xFEFF # utf8_decode_text bs)"
    using assms(2) by (simp add: utf8_decode_bom)
  then show ?thesis
    using run_parse_none [of root w "0xFEFF # utf8_decode_text bs" json_text_parse,
        OF assms(1) _ json_text_parse_bom]
    by (simp add: generate_def)
qed

theorem run_bom_input_witness:
  "files bom_world (input_path [js_lit ''srv'']) =
     Some (utf8_decode_text (0xEF # 0xBB # 0xBF # utf8_encode_text (json_print (JArr [example_record])))) \<and>
   generate [js_lit ''srv''] bom_world =
     (Inl ParseError, bom_world\<lparr>dirs := dirs bom_world \<union> set (ancestors [js_lit ''srv''])\<rparr>)"
proof -
  have a: "\<forall>a\<in>set (ancestors [js_lit ''srv'']). files bom_world a = None"
    by (simp add: bom_world_def ancestors_def input_name_def)
  have f: "files bom_world (input_path [js_lit ''srv'']) =
      Some (utf8_decode_text (0xEF # 0xBB # 0xBF # utf8_encode_text (json_print (JArr [example_record]))))"
    by (simp add: bom_world_def input_path_def)
  show ?thesis using run_bom_input [OF a f] f by (simp only: simp_thms)
qed

text \<open>
  C23 (finding): \<open>clip\<close> counts UTF-16 code units, so the description of a
  body of 119 letters and an emoji is cut inside the surrogate pair, and
  \<open>writeFileSync\<close> writes the unpaired high surrogate left in the page as
  \<open>U+FFFD\<close>: the page file holds the 119 letters followed by the bytes
  \<open>EF BF BD\<close> (the replacement character) and \<open>E2 80 A6\<close> (the ellipsis),
  although the record's body is well-formed.
\<close>

theorem page_bytes_split_pair:
  "well_formed_utf16 (js_string (qbody emoji_question)) \<and>
   clip (qbody emoji_question) 120 = replicate 119 97 @ [0xD83D, cu_ellipsis] \<and>
   (\<exists>h pre post. page_html emoji_question = Inr h \<and>
      utf8_encode_text h = pre @ replicate 119 97 @ [0xEF, 0xBF, 0xBD, 0xE2, 0x80, 0xA6] @ post)"
proof -
  have cl: "well_formed_utf16 (js_string (qbody emoji_question)) \<and>
      clip (qbody emoji_question) 120 = replicate 119 97 @ [0xD83D, cu_ellipsis]"
    using clip_splits_surrogate_pair by (simp add: emoji_question_def)
  have plain: "\<forall>c\<in>set (replicate 119 97 @ [0xD83D, cu_ellipsis]). esc_char c = [c]"
    by (simp add: esc_char_def)
  have desc: "page_desc emoji_question = replicate 119 97 @ [0xD83D, cu_ellipsis]"
    using cl html_escape_plain [OF plain]
    by (simp add: page_desc_def esc_def js_or_def emoji_question_def)
  have enc: "encode_uri_component (js_string (qid emoji_question)) = Inr (js_lit ''e'')"
    by (simp add: emoji_question_def uri_unreserved_def)
  have r: "renderable emoji_question" by (simp add: renderable_def emoji_question_def)
  define pre where "pre = page_tpl0 @ page_title emoji_question @ page_tpl1"
  define post where "post = page_tpl2 @ canonical_url (js_lit ''e'') @
      page_tpl3 @ page_title emoji_question @ page_tpl4 @ page_desc emoji_question @ page_tpl5 @
      canonical_url (js_lit ''e'') @ page_tpl6 @ page_title emoji_question @ page_tpl7 @
      esc (js_or (qbody emoji_question) (JStr [])) @ page_tpl8 @ js_lit ''e'' @ page_tpl9"
  have h: "page_html emoji_question = Inr (pre @ page_desc emoji_question @ post)"
    using page_html_Inr [OF r enc] by (simp add: pre_def post_def)
  have lp: "\<not> is_high_surrogate (last pre)"
    by (simp add: pre_def page_tpl1_def is_high_surrogate_def)
  have "\<forall>c\<in>set (replicate 119 (97 :: cu)). c < 0x80" by simp
  then have "utf8_encode_text (page_desc emoji_question @ post) =
      replicate 119 97 @ [0xEF, 0xBF, 0xBD, 0xE2, 0x80, 0xA6] @ utf8_encode_text post"
    using utf8_encode_text_append [of "page_desc emoji_question" post]
      utf8_encode_text_append [of "replicate 119 97" "[0xD83D, cu_ellipsis]"]
      utf8_encode_ascii [of "replicate 119 97"]
    by (simp add: desc is_high_surrogate_def is_low_surrogate_def unit_scalar_def utf8_bytes_def)
  then have "utf8_encode_text (pre @ page_desc emoji_question @ post) =
      utf8_encode_text pre @ replicate 119 97 @ [0xEF, 0xBF, 0xBD, 0xE2, 0x80, 0xA6] @ utf8_encode_text post"
    using utf8_encode_text_append [of pre "page_desc emoji_question @ post"] lp by simp
  with cl h show ?thesis by blast
qed

end
